theory Spec2Isabelle
  imports Complex_Main "HOL-Library.Multiset" "HOL-Library.AList" "HOL-Library.Sublist"
begin

section \<open>Python values\<close>

text \<open>
  Exceptions are values. \<open>py_raise\<close> is what can unwind the stack of the script:
  \<open>exit(code)\<close> raises \<open>SystemExit\<close>, which is not a subclass of \<open>Exception\<close>, so an
  \<open>except Exception\<close> clause lets it through, as it does \<open>KeyboardInterrupt\<close>.
\<close>

datatype py_exception =
  IndexError | KeyError | ZeroDivisionError | DataOverflowError
  | MarkupError string | Exception string

text \<open>\<open>str(e)\<close>: the message an exception carries, empty when it was raised without one.\<close>

fun exception_str :: "py_exception \<Rightarrow> string" where
  "exception_str (MarkupError msg) = msg"
| "exception_str (Exception msg) = msg"
| "exception_str e = []"

datatype py_raise = SystemExit "int option" | KeyboardInterrupt | Raised py_exception

text \<open>
  The value of a spreadsheet cell, as openpyxl hands it over with \<open>data_only=True\<close>:
  \<open>None\<close> for an empty cell, a string, an integer, a boolean, or any other object
  (a float, a date), of which the script uses only the truth value and the text
  \<open>str()\<close> gives, in this order.
\<close>

datatype cell_value = CNone | CStr string | CInt int | CBool bool | COther bool string

text \<open>The truth value Python gives \<open>if cell_value:\<close>.\<close>

fun truthy :: "cell_value \<Rightarrow> bool" where
  "truthy CNone = False"
| "truthy (CStr s) = (s \<noteq> [])"
| "truthy (CInt n) = (n \<noteq> 0)"
| "truthy (CBool b) = b"
| "truthy (COther t s) = t"

function str_nat :: "nat \<Rightarrow> string" where
  "str_nat n =
     (if n < 10 then [''0123456789'' ! n]
      else str_nat (n div 10) @ [''0123456789'' ! (n mod 10)])"
  by pat_completeness auto
termination
  by (relation "measure id") auto

declare str_nat.simps [simp del]

fun py_str :: "cell_value \<Rightarrow> string" where
  "py_str CNone = ''None''"
| "py_str (CStr s) = s"
| "py_str (CInt n) = (if n < 0 then ''-'' @ str_nat (nat (- n)) else str_nat (nat n))"
| "py_str (CBool b) = (if b then ''True'' else ''False'')"
| "py_str (COther t s) = s"

text \<open>\<open>os.path.join\<close> of a directory and a relative file name (POSIX).\<close>

definition path_join :: "string \<Rightarrow> string \<Rightarrow> string" where
  "path_join a b = (if a = [] \<or> last a = CHR ''/'' then a @ b else a @ ''/'' @ b)"

text \<open>An insertion-ordered \<open>dict\<close> with integer keys: \<open>d[k] = v\<close> and \<open>d[k]\<close>.\<close>

type_synonym 'v dict = "(nat \<times> 'v) list"

definition dict_set :: "'v dict \<Rightarrow> nat \<Rightarrow> 'v \<Rightarrow> 'v dict" where
  "dict_set d k v = AList.update k v d"

definition dict_get :: "'v dict \<Rightarrow> nat \<Rightarrow> py_exception + 'v" where
  "dict_get d k = (case map_of d k of None \<Rightarrow> Inl KeyError | Some v \<Rightarrow> Inr v)"

definition dict_keys :: "'v dict \<Rightarrow> nat list" where
  "dict_keys d = map fst d"

section \<open>Numbers of the renderer and of the PDF page\<close>

text \<open>
  The source computes its sizes with Python floats, which are IEEE 754 binary64 numbers.
  A float is modelled by the rational number it denotes. \<open>int(...)\<close> truncates towards
  zero.
\<close>

definition py_int :: "rat \<Rightarrow> int" where
  "py_int r = (if 0 \<le> r then \<lfloor>r\<rfloor> else \<lceil>r\<rceil>)"

text \<open>
  \<open>double x\<close> is the float nearest to the rational \<open>x\<close>: 53 significant bits, rounding to
  nearest, ties to the even significand. \<open>bit_length\<close> is Python's \<open>int.bit_length\<close>,
  \<open>float_exponent x\<close> is the integer \<open>e\<close> with \<open>2 ^ e \<le> \<bar>x\<bar> < 2 ^ (e + 1)\<close>, and the floats
  of that binade are the multiples of \<open>2 ^ (e - 52)\<close>. The exponent range is not modelled:
  every value below lies between \<open>2 ^ -3\<close> and \<open>2 ^ 11\<close>, far from overflow and from the
  subnormal numbers. A float operation of the source is the exact operation followed by
  \<open>double\<close>, and a literal such as \<open>1.2\<close> is \<open>double (12 / 10)\<close>.
\<close>

function bit_length :: "nat \<Rightarrow> nat" where
  "bit_length n = (if n = 0 then 0 else Suc (bit_length (n div 2)))"
  by pat_completeness auto
termination
  by (relation "measure id") auto

declare bit_length.simps [simp del]

definition float_exponent :: "rat \<Rightarrow> int" where
  "float_exponent x =
     (if 1 \<le> \<bar>x\<bar> then int (bit_length (nat \<lfloor>\<bar>x\<bar>\<rfloor>)) - 1
      else - int (bit_length (nat \<lceil>1 / \<bar>x\<bar>\<rceil> - 1)))"

definition two_pow :: "int \<Rightarrow> rat" where
  "two_pow e = (if 0 \<le> e then 2 ^ nat e else 1 / 2 ^ nat (- e))"

definition round_half_even :: "rat \<Rightarrow> int" where
  "round_half_even y =
     (let n = \<lfloor>y\<rfloor>; r = y - of_int n
      in if r < 1 / 2 then n else if 1 / 2 < r then n + 1 else if even n then n else n + 1)"

definition double :: "rat \<Rightarrow> rat" where
  "double x =
     (if x = 0 then 0
      else let u = two_pow (float_exponent x - 52)
           in of_int (round_half_even (x / u)) * u)"

text \<open>The literals \<open>1.2\<close> and \<open>0.2\<close>.\<close>

definition float_1_2 :: rat where
  "float_1_2 = double (12 / 10)"

definition float_0_2 :: rat where
  "float_0_2 = double (2 / 10)"

text \<open>\<open>generate_single_qr\<close>: \<open>base_width = 1000\<close>, \<open>base_height = int(base_width * 1.2)\<close>.\<close>

definition base_width :: int where
  "base_width = 1000"

definition base_height :: int where
  "base_height = py_int (double (of_int base_width * float_1_2))"

text \<open>
  \<open>font_size = min(60, int(base_width / max(len(text), 10)))\<close>. The quotient is taken
  exactly: \<open>1000 / n\<close> is an integer, which is a float, or it lies at least \<open>1 / n\<close> away
  from the next integer, so that rounding it to a float does not change its integer part.
\<close>

definition font_size :: "string \<Rightarrow> int" where
  "font_size text = min 60 (py_int (of_int base_width / of_nat (max (length text) 10)))"

text \<open>\<open>text_height = int(base_height * 0.2)\<close>.\<close>

definition text_height :: int where
  "text_height = py_int (double (of_int base_height * float_0_2))"

text \<open>
  reportlab's \<open>letter\<close> page is 612 by 792 points and \<open>inch\<close> is 72 points; the source
  binds them to \<open>LETTER_WIDTH\<close>, \<open>LETTER_HEIGHT\<close> and \<open>margin\<close>. These and the usable
  width and height are integers, hence exact as floats.
\<close>

definition LETTER_WIDTH :: rat where
  "LETTER_WIDTH = 612"

definition LETTER_HEIGHT :: rat where
  "LETTER_HEIGHT = 792"

definition margin :: rat where
  "margin = 72"

definition usable_width :: rat where
  "usable_width = LETTER_WIDTH - 2 * margin"

definition usable_height :: rat where
  "usable_height = LETTER_HEIGHT - 2 * margin"

text \<open>
  \<open>qr_width = usable_width / wide\<close>, \<open>qr_height = qr_width * 1.2\<close>. The two floats the
  source holds are \<open>qr_width_double\<close> and \<open>qr_height_double\<close>: the quotient rounded, and
  the product of that float and the float \<open>1.2\<close>, rounded again.
\<close>

definition qr_width_double :: "nat \<Rightarrow> rat" where
  "qr_width_double wide = double (usable_width / of_nat wide)"

definition qr_height_double :: "nat \<Rightarrow> rat" where
  "qr_height_double wide = double (qr_width_double wide * float_1_2)"

text \<open>
  \<open>qr_width\<close> and \<open>qr_height\<close> are the same two quantities without the roundings, the
  exact quotient and the exact product by \<open>12 / 10\<close>. The page layout below is computed
  with them; for 1 to 10 columns the floats differ from them by a relative error of at
  most \<open>2 ^ -53\<close> (lemmas \<open>qr_width_double_error\<close> and \<open>qr_height_double_error\<close>).
\<close>

definition qr_width :: "nat \<Rightarrow> rat" where
  "qr_width wide = usable_width / of_nat wide"

definition qr_height :: "nat \<Rightarrow> rat" where
  "qr_height wide = qr_width wide * (12 / 10)"

section \<open>The labeled-image renderer\<close>

text \<open>
  The QR symbol is made by the \<open>qrcode\<close> package, which is not part of the repository.
  The script builds \<open>QRCode(version=1, error_correction=ERROR_CORRECT_L, box_size=10,
  border=4)\<close>, adds the text and calls \<open>make(fit=True)\<close>. By the package's documentation
  \<open>make\<close> with \<open>fit\<close> set finds the best fit for the data, starting from the version
  given and going up to version 40, and raises \<open>DataOverflowError\<close> when even version 40 is
  too small; without \<open>fit\<close> the version given is kept. Whether a text fits a version at a
  correction level is the package's business and is a parameter here. The methods
  \<open>add_data\<close>, \<open>best_fit\<close> and \<open>make\<close> carry the prefix \<open>qr_\<close>.
\<close>

datatype error_correction = ERROR_CORRECT_L | ERROR_CORRECT_M | ERROR_CORRECT_Q | ERROR_CORRECT_H

record QRCode =
  version :: nat
  error_correction :: error_correction
  box_size :: nat
  border :: nat
  data_list :: string

type_synonym qr_fits = "nat \<Rightarrow> error_correction \<Rightarrow> string \<Rightarrow> bool"

definition qr_add_data :: "QRCode \<Rightarrow> string \<Rightarrow> QRCode" where
  "qr_add_data qr text = qr\<lparr>data_list := data_list qr @ text\<rparr>"

definition qr_best_fit :: "qr_fits \<Rightarrow> QRCode \<Rightarrow> nat \<Rightarrow> py_exception + QRCode" where
  "qr_best_fit fits qr start =
     (case filter (\<lambda>v. fits v (error_correction qr) (data_list qr)) [start..<41] of
        [] \<Rightarrow> Inl DataOverflowError
      | v # _ \<Rightarrow> Inr (qr\<lparr>version := v\<rparr>))"

definition qr_make :: "qr_fits \<Rightarrow> QRCode \<Rightarrow> bool \<Rightarrow> py_exception + QRCode" where
  "qr_make fits qr fit =
     (if fit then qr_best_fit fits qr (version qr)
      else if fits (version qr) (error_correction qr) (data_list qr) then Inr qr
      else Inl DataOverflowError)"

text \<open>
  The capacity of a symbol for a text encoded in byte mode, from the tables of the QR
  standard (ISO/IEC 18004): the data codewords of versions 1 to 40 at correction level L,
  a 4-bit mode indicator and a character count of 8 bits up to version 9 and 16 bits
  above. It stands for the package wherever a concrete run is evaluated.
\<close>

definition data_codewords_L :: "nat list" where
  "data_codewords_L =
     [19, 34, 55, 80, 108, 136, 156, 194, 232, 274,
      324, 370, 428, 461, 523, 589, 647, 721, 795, 861,
      932, 1006, 1094, 1174, 1276, 1370, 1468, 1531, 1631, 1735,
      1843, 1955, 2071, 2191, 2306, 2434, 2566, 2702, 2812, 2956]"

definition byte_mode_fits :: qr_fits where
  "byte_mode_fits v ec text \<longleftrightarrow>
     ec = ERROR_CORRECT_L \<and> 1 \<le> v \<and> v \<le> 40
     \<and> 4 + (if v \<le> 9 then 8 else 16) + 8 * length text \<le> 8 * (data_codewords_L ! (v - 1))"

text \<open>
  What the renderer needs from outside: the capacity check of the QR package; whether the
  work of the \<open>try\<close> block between the QR symbol and the saved file (font lookup,
  drawing and pasting with PIL, saving) raises for a row, \<open>None\<close> when it does not; and
  what rich does with a text given to \<open>console.print\<close>. rich reads square brackets in
  the text as markup and raises \<open>MarkupError\<close> for a closing tag that closes nothing:
  \<open>None\<close> when the text is printed, the message of the error otherwise.
\<close>

record render_env =
  qr_capacity :: qr_fits
  compose_error :: "nat \<Rightarrow> string \<Rightarrow> py_exception option"
  rich_markup_error :: "string \<Rightarrow> string option"

definition console_print :: "render_env \<Rightarrow> string \<Rightarrow> py_exception option" where
  "console_print env text = map_option MarkupError (rich_markup_error env text)"

fun print_all :: "render_env \<Rightarrow> string list \<Rightarrow> py_exception option" where
  "print_all env [] = None"
| "print_all env (text # later) =
     (case console_print env text of Some e \<Rightarrow> Some e | None \<Rightarrow> print_all env later)"

text \<open>
  The argument tuple of \<open>generate_single_qr\<close>:
  \<open>(row_num, cell_value, qr_width, img_width, img_height, tmpdirname, args_verbose)\<close>.
\<close>

type_synonym qr_args = "nat \<times> cell_value \<times> rat \<times> int \<times> int \<times> string \<times> bool"

definition args_verbose_of :: "qr_args \<Rightarrow> bool" where
  "args_verbose_of args =
     (case args of (row_num, cell_value, qr_w, img_width, img_height, tmpdirname, args_verbose) \<Rightarrow>
        args_verbose)"

record labeled_image =
  image_width :: int
  image_height :: int
  caption :: string
  caption_font_size :: int
  caption_height :: int
  qr_symbol :: QRCode
  saved_as :: string

text \<open>
  The body of the \<open>try\<close> block of \<open>generate_single_qr\<close>, with the three
  \<open>console.print\<close> calls it makes in verbose mode (lines 60, 68 and 166).
\<close>

definition render_labeled_image :: "render_env \<Rightarrow> qr_args \<Rightarrow> py_exception + labeled_image" where
  "render_labeled_image env args =
     (case args of (row_num, cell_value, qr_w, img_width, img_height, tmpdirname, args_verbose) \<Rightarrow>
        let qr = \<lparr>version = 1, error_correction = ERROR_CORRECT_L, box_size = 10, border = 4,
                  data_list = []\<rparr>;
            qr = qr_add_data qr (py_str cell_value)
        in case qr_make (qr_capacity env) qr True of
             Inl e \<Rightarrow> Inl e
           | Inr qr \<Rightarrow>
        (case (if args_verbose
               then print_all env
                      [''[dim]Created QR code for:[/dim] '' @ py_str cell_value,
                       ''[dim]Image dimensions:[/dim] '' @ py_str (CInt base_width) @ ''x''
                         @ py_str (CInt base_height)]
               else None) of
           Some e \<Rightarrow> Inl e
         | None \<Rightarrow>
        (let text = py_str cell_value
         in case compose_error env row_num text of
              Some e \<Rightarrow> Inl e
            | None \<Rightarrow>
        (let temp_file = path_join tmpdirname (''temp_qr_'' @ str_nat row_num @ ''.png'')
         in case (if args_verbose
                  then console_print env (''[dim]Saved temporary file:[/dim] '' @ temp_file)
                  else None) of
              Some e \<Rightarrow> Inl e
            | None \<Rightarrow>
                Inr \<lparr>image_width = base_width, image_height = base_height,
                     caption = text, caption_font_size = font_size text,
                     caption_height = text_height, qr_symbol = qr,
                     saved_as = temp_file\<rparr>))))"

text \<open>
  \<open>generate_single_qr\<close>. In verbose mode three \<open>console.print\<close> calls come before the
  \<open>try\<close> (lines 43 to 45): an exception of theirs leaves the function. \<open>except Exception\<close>
  turns every exception of the body into \<open>(row_num, None)\<close>, printing it first in
  verbose mode (line 172): an exception of that print leaves the function too.
\<close>

definition generate_single_qr ::
  "render_env \<Rightarrow> qr_args \<Rightarrow> py_exception + nat \<times> string option" where
  "generate_single_qr env args =
     (case args of (row_num, cell_value, qr_w, img_width, img_height, tmpdirname, args_verbose) \<Rightarrow>
        case (if args_verbose
              then print_all env
                     [CHR 0x0A # ''[cyan]Processing row '' @ str_nat (row_num + 1) @ ''[/cyan]'',
                      ''[dim]Text:[/dim] '' @ [CHR 0x27] @ py_str cell_value @ [CHR 0x27],
                      ''[dim]Text length:[/dim] '' @ str_nat (length (py_str cell_value))]
              else None) of
          Some e \<Rightarrow> Inl e
        | None \<Rightarrow>
            (case render_labeled_image env args of
               Inr img \<Rightarrow> Inr (row_num, Some (saved_as img))
             | Inl e \<Rightarrow>
                 (case (if args_verbose
                        then console_print env
                               (''[red]Error processing row '' @ str_nat (row_num + 1)
                                  @ '':[/red] '' @ exception_str e)
                        else None) of
                    Some e' \<Rightarrow> Inl e'
                  | None \<Rightarrow> Inr (row_num, None))))"

section \<open>The fan-out and the join\<close>

text \<open>
  \<open>process_args\<close> of the word-processor path and of the PDF path; \<open>qr_width_mm\<close> is the
  cell width the docx path computes from the page of the document template.
\<close>

definition process_args_docx ::
  "(nat \<times> cell_value) list \<Rightarrow> rat \<Rightarrow> string \<Rightarrow> bool \<Rightarrow> qr_args list" where
  "process_args_docx valid_rows qr_width_mm tmpdirname verbose =
     map (\<lambda>(row_num, cell_value). (row_num, cell_value, qr_width_mm, 1000, 1000, tmpdirname, verbose))
       valid_rows"

definition process_args_pdf ::
  "(nat \<times> cell_value) list \<Rightarrow> string \<Rightarrow> bool \<Rightarrow> qr_args list" where
  "process_args_pdf valid_rows tmpdirname verbose =
     map (\<lambda>(row_num, cell_value). (row_num, cell_value, 1000, 1000, 1200, tmpdirname, verbose))
       valid_rows"

text \<open>The progress task is created with \<open>total=len(valid_rows)\<close>.\<close>

definition task_total :: "(nat \<times> cell_value) list \<Rightarrow> nat" where
  "task_total valid_rows = length valid_rows"

text \<open>
  The loop over \<open>as_completed(future_to_row)\<close> runs in the main thread and sees the
  futures one by one in the order in which the workers finish: some permutation of the
  submitted argument tuples. The state of the loop is the \<open>results\<close> dict and the number
  of times \<open>progress.advance(task)\<close> has been called. \<open>future.result()\<close> raises what
  the worker raised; the \<open>except Exception\<close> of the loop prints it (line 689) and goes
  on, unless that print raises, which ends the loop and the fan-out.
\<close>

record fanout_state =
  results :: "string dict"
  advanced :: nat

definition loop_error_text :: "nat \<Rightarrow> py_exception \<Rightarrow> string" where
  "loop_error_text row_num e =
     CHR 0x0A # ''[red]Error processing row '' @ str_nat (row_num + 1) @ '':[/red] ''
       @ exception_str e"

definition collect_result ::
  "render_env \<Rightarrow> bool \<Rightarrow> fanout_state \<Rightarrow> qr_args \<times> (py_exception + nat \<times> string option)
   \<Rightarrow> py_exception + fanout_state" where
  "collect_result env verbose s future =
     (case future of
        (args, Inl e) \<Rightarrow>
          (case console_print env (loop_error_text (fst args) e) of
             Some e' \<Rightarrow> Inl e'
           | None \<Rightarrow> Inr s)
      | (args, Inr (row_num, None)) \<Rightarrow> Inr s
      | (args, Inr (row_num, Some tf)) \<Rightarrow>
          if tf \<noteq> [] then
            let s = s\<lparr>results := dict_set (results s) row_num tf\<rparr>
            in if \<not> verbose then Inr (s\<lparr>advanced := advanced s + 1\<rparr>) else Inr s
          else Inr s)"

fun collect_loop ::
  "render_env \<Rightarrow> bool \<Rightarrow> fanout_state \<Rightarrow> (qr_args \<times> (py_exception + nat \<times> string option)) list
   \<Rightarrow> py_exception + fanout_state" where
  "collect_loop env verbose s [] = Inr s"
| "collect_loop env verbose s (future # rest) =
     (case collect_result env verbose s future of
        Inl e \<Rightarrow> Inl e
      | Inr s' \<Rightarrow> collect_loop env verbose s' rest)"

definition fan_out :: "render_env \<Rightarrow> bool \<Rightarrow> qr_args list \<Rightarrow> py_exception + fanout_state" where
  "fan_out env verbose completed =
     collect_loop env verbose \<lparr>results = [], advanced = 0\<rparr>
       (map (\<lambda>args. (args, generate_single_qr env args)) completed)"

text \<open>\<open>all_temp_files = [results[row_num] for row_num in sorted(results.keys())]\<close>.\<close>

fun lookup_each :: "'v dict \<Rightarrow> nat list \<Rightarrow> py_exception + 'v list" where
  "lookup_each d [] = Inr []"
| "lookup_each d (k # ks) =
     (case dict_get d k of
        Inl e \<Rightarrow> Inl e
      | Inr v \<Rightarrow> (case lookup_each d ks of Inl e \<Rightarrow> Inl e | Inr vs \<Rightarrow> Inr (v # vs)))"

definition all_temp_files :: "string dict \<Rightarrow> py_exception + string list" where
  "all_temp_files d = lookup_each d (sort (dict_keys d))"

text \<open>The fan-out followed by the join: the file list handed to the layout.\<close>

definition joined_files :: "render_env \<Rightarrow> bool \<Rightarrow> qr_args list \<Rightarrow> py_exception + string list" where
  "joined_files env verbose completed =
     (case fan_out env verbose completed of
        Inl e \<Rightarrow> Inl e
      | Inr s \<Rightarrow> all_temp_files (results s))"

text \<open>
  The rows whose worker returned a file, with their files, in the order of the argument
  list; and the rows that end the loop: the worker raised and the loop could not print
  the error.
\<close>

definition row_file :: "render_env \<Rightarrow> qr_args \<Rightarrow> (nat \<times> string) list" where
  "row_file env args =
     (case generate_single_qr env args of
        Inr (row_num, Some tf) \<Rightarrow> [(row_num, tf)]
      | _ \<Rightarrow> [])"

definition rendered :: "render_env \<Rightarrow> qr_args list \<Rightarrow> (nat \<times> string) list" where
  "rendered env argss = concat (map (row_file env) argss)"

definition aborts :: "render_env \<Rightarrow> qr_args \<Rightarrow> bool" where
  "aborts env args =
     (case generate_single_qr env args of
        Inl e \<Rightarrow> console_print env (loop_error_text (fst args) e) \<noteq> None
      | Inr r \<Rightarrow> False)"

text \<open>The dict after the pairs of a list are stored one after the other.\<close>

fun store_all :: "(nat \<times> string) list \<Rightarrow> string dict \<Rightarrow> string dict" where
  "store_all [] d = d"
| "store_all ((k, f) # kfs) d = store_all kfs (dict_set d k f)"

text \<open>
  A concrete surrounding for evaluating runs: the capacity of byte mode; a font lookup,
  composition and saving that never raise; and for rich the one case the evaluated runs
  meet, a text holding the closing tag \<open>[/x]\<close> and no \<open>[x]\<close> before it, for which
  rich raises \<open>MarkupError\<close> with a message that names the tag.
\<close>

fun contains :: "string \<Rightarrow> string \<Rightarrow> bool" where
  "contains [] p = (p = [])"
| "contains (c # cs) p = (take (length p) (c # cs) = p \<or> contains cs p)"

definition closing_tag_x :: "string \<Rightarrow> string option" where
  "closing_tag_x text =
     (if contains text ''[/x]'' \<and> \<not> contains text ''[x]''
      then Some (''closing tag '' @ [CHR 0x27] @ ''[/x]'' @ [CHR 0x27]
                   @ '' does not match any open tag'')
      else None)"

definition qrcode_env :: render_env where
  "qrcode_env =
     \<lparr>qr_capacity = byte_mode_fits, compose_error = (\<lambda>row text. None),
      rich_markup_error = closing_tag_x\<rparr>"

section \<open>The PDF path: \<open>generate_pdf\<close>\<close>

text \<open>
  The canvas is the list of the calls made on it, \<open>drawImage(file, x, y, width, height)\<close>
  and \<open>showPage()\<close>, in order. \<open>drawable\<close> says for which files \<open>drawImage\<close> returns;
  for the others it raises, and the \<open>except\<close> clause of the loop skips the file without
  moving the cursor.
\<close>

datatype canvas_op = DrawImage string rat rat rat rat | ShowPage

record pdf_state =
  pos_x :: rat
  pos_y :: rat
  items_in_row :: nat
  page_count :: nat
  canvas :: "canvas_op list"

definition pdf_start :: "nat \<Rightarrow> pdf_state" where
  "pdf_start wide =
     \<lparr>pos_x = margin, pos_y = LETTER_HEIGHT - margin - qr_height wide,
      items_in_row = 0, page_count = 1, canvas = []\<rparr>"

definition pdf_step :: "(string \<Rightarrow> bool) \<Rightarrow> nat \<Rightarrow> pdf_state \<Rightarrow> string \<Rightarrow> pdf_state" where
  "pdf_step drawable wide s temp_file =
     (if \<not> drawable temp_file then s
      else
        let s = s\<lparr>canvas := canvas s
                      @ [DrawImage temp_file (pos_x s) (pos_y s) (qr_width wide) (qr_height wide)]\<rparr>;
            s = s\<lparr>items_in_row := items_in_row s + 1\<rparr>
        in if items_in_row s \<ge> wide then
             let s = s\<lparr>pos_y := pos_y s - qr_height wide\<rparr>;
                 s = s\<lparr>pos_x := margin\<rparr>;
                 s = s\<lparr>items_in_row := 0\<rparr>
             in if pos_y s < margin then
                  s\<lparr>canvas := canvas s @ [ShowPage],
                    pos_y := LETTER_HEIGHT - margin - qr_height wide,
                    pos_x := margin,
                    items_in_row := 0,
                    page_count := page_count s + 1\<rparr>
                else s
           else s\<lparr>pos_x := pos_x s + qr_width wide\<rparr>)"

fun pdf_loop :: "(string \<Rightarrow> bool) \<Rightarrow> nat \<Rightarrow> pdf_state \<Rightarrow> string list \<Rightarrow> pdf_state" where
  "pdf_loop drawable wide s [] = s"
| "pdf_loop drawable wide s (temp_file # rest) =
     pdf_loop drawable wide (pdf_step drawable wide s temp_file) rest"

text \<open>
  \<open>generate_pdf\<close> returns \<open>True\<close> after \<open>c.save()\<close>; with \<open>wide = 0\<close> the division
  raises \<open>ZeroDivisionError\<close>, the outer \<open>except\<close> returns \<open>False\<close> and nothing is saved.
\<close>

definition generate_pdf :: "(string \<Rightarrow> bool) \<Rightarrow> string list \<Rightarrow> nat \<Rightarrow> bool \<times> canvas_op list" where
  "generate_pdf drawable qr_files wide =
     (if wide = 0 then (False, [])
      else (True, canvas (pdf_loop drawable wide (pdf_start wide) qr_files)))"

text \<open>
  Reading a canvas: the images in drawing order, each with the page it is on (the number
  of \<open>showPage\<close> calls before it) and its position; and the rows of the grid, a row being
  a page together with a height on it.
\<close>

fun placements :: "nat \<Rightarrow> canvas_op list \<Rightarrow> (string \<times> nat \<times> rat \<times> rat) list" where
  "placements page [] = []"
| "placements page (DrawImage f px py w h # ops) = (f, page, px, py) # placements page ops"
| "placements page (ShowPage # ops) = placements (Suc page) ops"

definition grid_rows :: "canvas_op list \<Rightarrow> (nat \<times> rat) set" where
  "grid_rows ops = (\<lambda>(f, page, px, py). (page, py)) ` set (placements 0 ops)"

fun cell_sizes :: "canvas_op list \<Rightarrow> (rat \<times> rat) list" where
  "cell_sizes [] = []"
| "cell_sizes (DrawImage f px py w h # ops) = (w, h) # cell_sizes ops"
| "cell_sizes (ShowPage # ops) = cell_sizes ops"

text \<open>
  The layout the loop is to produce, stated without the loop. The image with index \<open>i\<close>
  (from 0) stands in column \<open>i mod wide\<close> of grid row \<open>i div wide\<close>; a page holds as many
  rows as fit between the margins; a page ends after the image that completes a row when
  one more row below it would reach under the bottom margin.
\<close>

definition rows_per_page :: "nat \<Rightarrow> nat" where
  "rows_per_page wide = nat \<lfloor>usable_height / qr_height wide\<rfloor>"

definition cell_x :: "nat \<Rightarrow> nat \<Rightarrow> rat" where
  "cell_x wide i = margin + of_nat (i mod wide) * qr_width wide"

definition cell_y :: "nat \<Rightarrow> nat \<Rightarrow> rat" where
  "cell_y wide i =
     LETTER_HEIGHT - margin - qr_height wide
     - of_nat ((i div wide) mod rows_per_page wide) * qr_height wide"

definition cell_page :: "nat \<Rightarrow> nat \<Rightarrow> nat" where
  "cell_page wide i = (i div wide) div rows_per_page wide"

definition page_break_after :: "nat \<Rightarrow> nat \<Rightarrow> bool" where
  "page_break_after wide i \<longleftrightarrow>
     Suc i mod wide = 0 \<and> cell_y wide i - qr_height wide < margin"

definition placed :: "nat \<Rightarrow> string list \<Rightarrow> nat \<Rightarrow> canvas_op list" where
  "placed wide files i =
     DrawImage (files ! i) (cell_x wide i) (cell_y wide i) (qr_width wide) (qr_height wide)
     # (if page_break_after wide i then [ShowPage] else [])"

definition pdf_after :: "nat \<Rightarrow> string list \<Rightarrow> pdf_state" where
  "pdf_after wide files =
     \<lparr>pos_x = cell_x wide (length files), pos_y = cell_y wide (length files),
      items_in_row = length files mod wide,
      page_count = Suc (cell_page wide (length files)),
      canvas = concat (map (placed wide files) [0..<length files])\<rparr>"

section \<open>The word-processor path: the table-assembly loop\<close>

text \<open>
  The document is the list of what was added to it. A table has one row of cells, a cell
  is the list of the pictures added to it; \<open>table.cell(0, idx)\<close> raises \<open>IndexError\<close>
  for a column the table does not have.
\<close>

datatype doc_element = Table "string list list" | Paragraph

definition add_table :: "nat \<Rightarrow> string list list" where
  "add_table cols = replicate cols []"

fun add_pictures :: "string list list \<Rightarrow> nat \<Rightarrow> string list \<Rightarrow> py_exception + string list list" where
  "add_pictures t idx [] = Inr t"
| "add_pictures t idx (tf # rest) =
     (if idx < length t then add_pictures (t[idx := t ! idx @ [tf]]) (Suc idx) rest
      else Inl IndexError)"

fun docx_loop ::
  "nat \<Rightarrow> string list \<Rightarrow> string list \<Rightarrow> doc_element list
   \<Rightarrow> py_exception + (string list \<times> doc_element list)" where
  "docx_loop wide [] current_row doc = Inr (current_row, doc)"
| "docx_loop wide (temp_file # rest) current_row doc =
     (let current_row = current_row @ [temp_file] in
      if length current_row = wide then
        (case add_pictures (add_table wide) 0 current_row of
           Inl e \<Rightarrow> Inl e
         | Inr table \<Rightarrow> docx_loop wide rest [] (doc @ [Table table, Paragraph]))
      else docx_loop wide rest current_row doc)"

definition docx_document :: "nat \<Rightarrow> string list \<Rightarrow> py_exception + doc_element list" where
  "docx_document wide all_files =
     (case docx_loop wide all_files [] [] of Inl e \<Rightarrow> Inl e | Inr (current_row, doc) \<Rightarrow> Inr doc)"

text \<open>Reading a document: its tables, and the pictures in them in reading order.\<close>

fun doc_tables :: "doc_element list \<Rightarrow> string list list list" where
  "doc_tables [] = []"
| "doc_tables (Table t # doc) = t # doc_tables doc"
| "doc_tables (Paragraph # doc) = doc_tables doc"

definition doc_images :: "doc_element list \<Rightarrow> string list" where
  "doc_images doc = concat (concat (doc_tables doc))"

text \<open>The full rows of a sequence: consecutive groups of \<open>wide\<close>, a shorter rest left out.\<close>

fun full_rows :: "nat \<Rightarrow> 'a list \<Rightarrow> 'a list list" where
  "full_rows wide xs =
     (if wide = 0 \<or> length xs < wide then []
      else take wide xs # full_rows wide (drop wide xs))"

declare full_rows.simps [simp del]

definition table_of_row :: "string list \<Rightarrow> doc_element list" where
  "table_of_row row = [Table (map (\<lambda>tf. [tf]) row), Paragraph]"

section \<open>Spreadsheet ingestion and the script around it\<close>

text \<open>
  The active worksheet as the script reads it: \<open>max_row\<close>, \<open>max_column\<close> and
  \<open>cell(row, column).value\<close>, rows and columns counted from 1.
\<close>

record worksheet =
  max_row :: nat
  max_column :: nat
  cell :: "nat \<Rightarrow> nat \<Rightarrow> cell_value"

definition start_row :: "bool \<Rightarrow> nat" where
  "start_row has_header = (if has_header then 2 else 1)"

text \<open>The loop \<open>for row in range(start_row, src_ws.max_row + 1)\<close> with its \<open>append\<close>.\<close>

fun valid_rows_loop ::
  "worksheet \<Rightarrow> nat \<Rightarrow> nat \<Rightarrow> nat list \<Rightarrow> (nat \<times> cell_value) list \<Rightarrow> (nat \<times> cell_value) list" where
  "valid_rows_loop ws selected_column start [] valid_rows = valid_rows"
| "valid_rows_loop ws selected_column start (row # rest) valid_rows =
     (let cell_value = cell ws row selected_column
      in if truthy cell_value
         then valid_rows_loop ws selected_column start rest (valid_rows @ [(row - start, cell_value)])
         else valid_rows_loop ws selected_column start rest valid_rows)"

text \<open>
  Collecting the rows: with none found the script prints
  \<open>Error: No data found in selected column\<close> and calls \<open>exit()\<close>.
\<close>

definition collect_valid_rows ::
  "worksheet \<Rightarrow> nat \<Rightarrow> nat \<Rightarrow> py_raise + (nat \<times> cell_value) list" where
  "collect_valid_rows ws selected_column start =
     (let valid_rows =
            valid_rows_loop ws selected_column start [start..<max_row ws + 1] []
      in if length valid_rows = 0 then Inl (SystemExit None) else Inr valid_rows)"

text \<open>
  The options of the command line, and the surroundings of one run: the file system, the
  workbook loader, the answers the user types at each prompt, what setting up and
  clearing the output directory raises, if anything, and what the generation stage inside
  the temporary directory raises, if anything.
\<close>

record cli_args =
  arg_input :: "string option"
  arg_column :: "int option"
  arg_header :: bool
  arg_wide :: "int option"
  arg_type :: "string option"
  arg_verbose :: bool

record world =
  path_exists :: "string \<Rightarrow> bool"
  listdir :: "string list"
  load_workbook :: "string \<Rightarrow> py_exception + worksheet"
  file_answers :: "int list"
  header_answers :: "string list"
  column_answers :: "int list"
  width_answers :: "int list"
  format_answers :: "int list"
  clear_output_dir :: "py_raise option"
  generation :: "(nat \<times> cell_value) list \<Rightarrow> int \<Rightarrow> string \<Rightarrow> py_raise option"

text \<open>
  The handler installed for \<open>SIGINT\<close> calls \<open>exit(0)\<close>. A prompt is a \<open>while True\<close>
  loop that asks again until the answer is accepted; the answers are given in the order
  typed (a text that is not a number counts as a number out of range, header answers are
  taken in lower case), and when they run out before one is accepted the user has
  pressed Ctrl-C.
\<close>

definition signal_handler :: py_raise where
  "signal_handler = SystemExit (Some 0)"

fun prompt :: "('a \<Rightarrow> bool) \<Rightarrow> 'a list \<Rightarrow> py_raise + 'a" where
  "prompt accepted [] = Inl signal_handler"
| "prompt accepted (answer # later) =
     (if accepted answer then Inr answer else prompt accepted later)"

definition endswith :: "string \<Rightarrow> string \<Rightarrow> bool" where
  "endswith s e \<longleftrightarrow> length e \<le> length s \<and> drop (length s - length e) s = e"

definition startswith :: "string \<Rightarrow> string \<Rightarrow> bool" where
  "startswith s p \<longleftrightarrow> take (length p) s = p"

text \<open>File selection: \<open>if args.input:\<close> is false for no option and for an empty one.\<close>

definition select_file :: "cli_args \<Rightarrow> world \<Rightarrow> py_raise + string" where
  "select_file args w =
     (if arg_input args \<noteq> None \<and> arg_input args \<noteq> Some [] then
        (case arg_input args of
           Some path \<Rightarrow>
             if \<not> path_exists w path \<or> \<not> endswith path ''.xlsx''
             then Inl (SystemExit None)
             else Inr path
         | None \<Rightarrow> Inl (SystemExit None))
      else
        let xlsx_files = filter (\<lambda>f. endswith f ''.xlsx'' \<and> \<not> startswith f ''~$'') (listdir w)
        in if length xlsx_files = 0 then Inl (SystemExit None)
           else if length xlsx_files = 1 then Inr (xlsx_files ! 0)
           else (case prompt (\<lambda>answer. 0 \<le> answer - 1 \<and> answer - 1 < int (length xlsx_files))
                        (file_answers w) of
                   Inl r \<Rightarrow> Inl r
                 | Inr answer \<Rightarrow> Inr (xlsx_files ! nat (answer - 1))))"

text \<open>The header flag: the prompt is shown only when neither \<open>--header\<close> nor a column is given.\<close>

definition column_given :: "cli_args \<Rightarrow> bool" where
  "column_given args \<longleftrightarrow> arg_column args \<noteq> None \<and> arg_column args \<noteq> Some 0"

definition select_header :: "cli_args \<Rightarrow> world \<Rightarrow> py_raise + bool" where
  "select_header args w =
     (if \<not> arg_header args \<and> \<not> column_given args then
        (case prompt (\<lambda>answer. answer = ''y'' \<or> answer = ''n'') (header_answers w) of
           Inl r \<Rightarrow> Inl r
         | Inr answer \<Rightarrow> Inr (answer = ''y''))
      else Inr (arg_header args))"

text \<open>Column selection: a column outside \<open>1..max_col\<close> prints an error and calls \<open>exit()\<close>.\<close>

definition select_column :: "cli_args \<Rightarrow> world \<Rightarrow> worksheet \<Rightarrow> py_raise + nat" where
  "select_column args w ws =
     (if column_given args then
        (case arg_column args of
           Some c \<Rightarrow>
             if 1 \<le> c \<and> c \<le> int (max_column ws) then Inr (nat c)
             else Inl (SystemExit None)
         | None \<Rightarrow> Inl (SystemExit None))
      else
        (case prompt (\<lambda>answer. 1 \<le> answer \<and> answer \<le> int (max_column ws)) (column_answers w) of
           Inl r \<Rightarrow> Inl r
         | Inr answer \<Rightarrow> Inr (nat answer)))"

definition select_width :: "cli_args \<Rightarrow> world \<Rightarrow> py_raise + int" where
  "select_width args w =
     (case arg_wide args of
        None \<Rightarrow> prompt (\<lambda>answer. 1 \<le> answer \<and> answer \<le> 10) (width_answers w)
      | Some n \<Rightarrow> Inr n)"

definition select_type :: "cli_args \<Rightarrow> world \<Rightarrow> py_raise + string" where
  "select_type args w =
     (case arg_type args of
        None \<Rightarrow>
          (case prompt (\<lambda>answer. answer = 1 \<or> answer = 2) (format_answers w) of
             Inl r \<Rightarrow> Inl r
           | Inr answer \<Rightarrow> Inr (if answer = 1 then ''docx'' else ''pdf''))
      | Some t \<Rightarrow> Inr t)"

text \<open>
  The block inside \<open>with tempfile.TemporaryDirectory()\<close>: its \<open>except Exception\<close> prints
  the error and does not raise again.
\<close>

definition tempdir_block :: "py_raise option \<Rightarrow> py_raise option" where
  "tempdir_block r = (case r of Some (Raised e) \<Rightarrow> None | _ \<Rightarrow> r)"

text \<open>The body of the outermost \<open>try\<close>: what leaves it, \<open>None\<close> when it runs to its end.\<close>

definition script_body :: "cli_args \<Rightarrow> world \<Rightarrow> py_raise option" where
  "script_body args w =
     (case select_file args w of
        Inl r \<Rightarrow> Some r
      | Inr selected_file \<Rightarrow>
     (case select_header args w of
        Inl r \<Rightarrow> Some r
      | Inr has_header \<Rightarrow>
     (case load_workbook w selected_file of
        Inl e \<Rightarrow> Some (Raised e)
      | Inr src_ws \<Rightarrow>
     (case select_column args w src_ws of
        Inl r \<Rightarrow> Some r
      | Inr selected_column \<Rightarrow>
     (case collect_valid_rows src_ws selected_column (start_row has_header) of
        Inl r \<Rightarrow> Some r
      | Inr valid_rows \<Rightarrow>
     (case select_width args w of
        Inl r \<Rightarrow> Some r
      | Inr wide \<Rightarrow>
     (case select_type args w of
        Inl r \<Rightarrow> Some r
      | Inr output_type \<Rightarrow>
     (case clear_output_dir w of
        Some r \<Rightarrow> Some r
      | None \<Rightarrow> tempdir_block (generation w valid_rows wide output_type)))))))))"

text \<open>
  The handlers of the outermost \<open>try\<close> and the exit status of the process:
  \<open>except KeyboardInterrupt: exit(0)\<close>, \<open>except Exception: exit(1)\<close>; a \<open>SystemExit\<close>
  passes both and ends the interpreter with its code, 0 for \<open>exit()\<close> without one.
\<close>

definition exit_code :: "int option \<Rightarrow> int" where
  "exit_code code = (case code of None \<Rightarrow> 0 | Some n \<Rightarrow> n)"

definition top_level :: "py_raise option \<Rightarrow> int" where
  "top_level r =
     (case r of
        None \<Rightarrow> 0
      | Some KeyboardInterrupt \<Rightarrow> exit_code (Some 0)
      | Some (Raised e) \<Rightarrow> exit_code (Some 1)
      | Some (SystemExit code) \<Rightarrow> exit_code code)"

definition exit_status :: "cli_args \<Rightarrow> world \<Rightarrow> int" where
  "exit_status args w = top_level (script_body args w)"

section \<open>Float arithmetic\<close>

text \<open>Rules that let the simplifier evaluate \<open>double\<close> at a quotient of numerals.\<close>

lemma bit_length_numeral [simp]:
  "bit_length 0 = 0"
  "bit_length (numeral k) = Suc (bit_length (numeral k div 2))"
  by (simp_all add: bit_length.simps [of 0] bit_length.simps [of "numeral k"])

lemma bit_length_1 [simp]: "bit_length 1 = 1" "bit_length (Suc 0) = 1"
  by (simp_all add: bit_length.simps [of 1] bit_length.simps [of 0] bit_length.simps [of "Suc 0"])

lemma floor_rat_numeral:
  "\<lfloor>(numeral a :: rat) / numeral b\<rfloor> = numeral a div numeral b"
  by (metis floor_divide_of_int_eq of_int_numeral)

lemma floor_rat_one_numeral: "\<lfloor>(1 :: rat) / numeral b\<rfloor> = 1 div numeral b"
  by (metis floor_divide_of_int_eq of_int_numeral of_int_1)

lemma ceiling_rat_numeral:
  "\<lceil>(numeral a :: rat) / numeral b\<rceil> = - (- numeral a div numeral b)"
  by (metis ceiling_def floor_divide_of_int_eq minus_divide_left of_int_minus of_int_numeral)

lemmas double_eval = double_def float_exponent_def two_pow_def round_half_even_def Let_def
  floor_rat_numeral floor_rat_one_numeral ceiling_rat_numeral

lemma float_1_2_value: "float_1_2 = 5404319552844595 / 4503599627370496"
  by (simp add: float_1_2_def double_eval)

lemma float_0_2_value: "float_0_2 = 3602879701896397 / 18014398509481984"
  by (simp add: float_0_2_def double_eval)

text \<open>
  \<open>double\<close> rounds to 53 bits: \<open>float_exponent\<close> gives the binade of its argument, the
  result lies within half a unit in the last place of the argument, and so within a
  relative error of \<open>2 ^ -53\<close>.
\<close>

lemma bit_length_bounds:
  "0 < n \<Longrightarrow> 2 ^ (bit_length n - 1) \<le> n \<and> n < 2 ^ bit_length n"
proof (induction n rule: bit_length.induct)
  case (1 n)
  show ?case
  proof (cases "n div 2 = 0")
    case True
    then have "n = 1" using 1(2) by simp
    then show ?thesis by simp
  next
    case False
    then have pos: "0 < n div 2" by simp
    have ih: "2 ^ (bit_length (n div 2) - 1) \<le> n div 2 \<and> n div 2 < 2 ^ bit_length (n div 2)"
      using 1(1) 1(2) pos by simp
    have bl: "bit_length n = Suc (bit_length (n div 2))"
      using 1(2) by (subst bit_length.simps) simp
    have k: "0 < bit_length (n div 2)"
      using pos by (subst bit_length.simps) simp
    then obtain j where j: "bit_length (n div 2) = Suc j"
      by (cases "bit_length (n div 2)") simp_all
    have half: "2 * (n div 2) \<le> n" "n < 2 * (n div 2) + 2"
      by simp_all
    have "2 * 2 ^ j \<le> 2 * (n div 2)"
      using ih j by simp
    then have lo: "2 ^ Suc j \<le> n"
      using half(1) by simp
    have "n div 2 + 1 \<le> 2 * 2 ^ j"
      using ih j by simp
    then have "2 * (n div 2) + 2 \<le> 2 * (2 * 2 ^ j)"
      by simp
    then have hi: "n < 2 ^ Suc (Suc j)"
      using half(2) by simp
    show ?thesis using lo hi bl j by simp
  qed
qed

lemma bit_length_pos: "0 < n \<Longrightarrow> 0 < bit_length n"
  by (subst bit_length.simps) simp

lemma two_pow_pos: "0 < two_pow e"
  by (simp add: two_pow_def)

lemma two_pow_Suc: "two_pow (e + 1) = 2 * two_pow e"
proof (cases "0 \<le> e")
  case True
  then have "nat (e + 1) = Suc (nat e)" by simp
  then show ?thesis using True by (simp add: two_pow_def)
next
  case False
  then obtain k where k: "nat (- e) = Suc k" by (cases "nat (- e)") simp_all
  show ?thesis
  proof (cases "e = -1")
    case True
    then show ?thesis by (simp add: two_pow_def)
  next
    case False
    then have "nat (- (e + 1)) = k" using k by simp
    moreover have "\<not> 0 \<le> e + 1" using False \<open>\<not> 0 \<le> e\<close> by simp
    ultimately show ?thesis using k \<open>\<not> 0 \<le> e\<close> by (simp add: two_pow_def)
  qed
qed

lemma float_exponent_bounds:
  assumes "x \<noteq> 0"
  shows "two_pow (float_exponent x) \<le> \<bar>x\<bar> \<and> \<bar>x\<bar> < 2 * two_pow (float_exponent x)"
proof (cases "1 \<le> \<bar>x\<bar>")
  case True
  define n where "n = nat \<lfloor>\<bar>x\<bar>\<rfloor>"
  have n1: "1 \<le> \<lfloor>\<bar>x\<bar>\<rfloor>" using True by simp
  then have npos: "0 < n" by (simp add: n_def)
  have nle: "of_nat n \<le> \<bar>x\<bar>"
    using n1 by (simp add: n_def)
  have nlt: "\<bar>x\<bar> < of_nat n + 1"
    using n1 by (simp add: n_def) linarith
  obtain j where j: "bit_length n = Suc j"
    using bit_length_pos [OF npos] gr0_implies_Suc by blast
  have b: "2 ^ j \<le> n \<and> n < 2 ^ Suc j"
    using bit_length_bounds [OF npos] j by simp
  have e: "float_exponent x = int j"
    using True j by (simp add: float_exponent_def n_def)
  have "(2::rat) ^ j \<le> of_nat n"
    using b by (metis of_nat_le_iff of_nat_numeral of_nat_power)
  from this nle have lo: "(2::rat) ^ j \<le> \<bar>x\<bar>"
    by (rule order_trans)
  have "n + 1 \<le> 2 ^ Suc j" using b by simp
  then have "(of_nat (n + 1) :: rat) \<le> of_nat (2 ^ Suc j)"
    by (simp only: of_nat_le_iff)
  then have "(of_nat n :: rat) + 1 \<le> 2 ^ Suc j" by simp
  then have hi: "\<bar>x\<bar> < 2 * 2 ^ j" using nlt by simp
  show ?thesis using lo hi e by (simp add: two_pow_def)
next
  case False
  then have lt1: "\<bar>x\<bar> < 1" by simp
  have xpos: "0 < \<bar>x\<bar>" using assms by simp
  define c where "c = \<lceil>1 / \<bar>x\<bar>\<rceil>"
  define m where "m = nat c"
  have inv: "1 < 1 / \<bar>x\<bar>" using lt1 xpos by simp
  have cge: "1 / \<bar>x\<bar> \<le> of_int c" and clt: "of_int c - 1 < 1 / \<bar>x\<bar>"
    unfolding c_def by linarith+
  have "(1::rat) < of_int c" using inv cge by linarith
  then have c2: "2 \<le> c" by simp
  then have m2: "2 \<le> m" unfolding m_def by arith
  have mc: "(of_nat m :: rat) = of_int c"
    using c2 by (simp add: m_def)
  have mge: "1 / \<bar>x\<bar> \<le> of_nat m"
    using cge by (simp only: mc)
  have mlt: "of_nat m - 1 < 1 / \<bar>x\<bar>"
    using clt by (simp only: mc)
  have pos: "0 < m - 1" using m2 by simp
  obtain j where j: "bit_length (m - 1) = Suc j"
    using bit_length_pos [OF pos] gr0_implies_Suc by blast
  have b: "2 ^ j \<le> m - 1 \<and> m - 1 < 2 ^ Suc j"
    using bit_length_bounds [OF pos] j by simp
  have e: "float_exponent x = - int (Suc j)"
    using False j by (simp add: float_exponent_def m_def c_def)
  have "m \<le> 2 ^ Suc j" using b m2 by auto
  then have "(of_nat m :: rat) \<le> of_nat (2 ^ Suc j)" by (simp only: of_nat_le_iff)
  then have "1 / \<bar>x\<bar> \<le> 2 ^ Suc j" using mge by simp
  then have "1 \<le> 2 ^ Suc j * \<bar>x\<bar>" using xpos by (simp add: field_simps)
  then have lo: "1 / 2 ^ Suc j \<le> \<bar>x\<bar>" by (simp add: field_simps)
  have "(2::nat) ^ j \<le> m - 1" using b by blast
  then have "(of_nat (2 ^ j) :: rat) \<le> of_nat (m - 1)" by (simp only: of_nat_le_iff)
  then have "(2::rat) ^ j \<le> of_nat m - 1" using m2 by (simp add: of_nat_diff)
  then have "2 ^ j < 1 / \<bar>x\<bar>" using mlt by simp
  then have "2 ^ j * \<bar>x\<bar> < 1" using xpos by (simp add: field_simps)
  then have hi: "\<bar>x\<bar> < 2 * (1 / 2 ^ Suc j)" by (simp add: field_simps)
  have nj: "nat (int j + 1) = Suc j" by arith
  show ?thesis using lo hi e nj by (simp add: two_pow_def)
qed

lemma round_half_even_error: "\<bar>of_int (round_half_even y) - y\<bar> \<le> 1 / 2"
proof -
  define n where "n = \<lfloor>y\<rfloor>"
  define r where "r = y - of_int n"
  have r: "0 \<le> r" "r < 1"
    unfolding r_def n_def by linarith+
  have y: "y = of_int n + r"
    by (simp add: r_def)
  have "round_half_even y
      = (if r < 1 / 2 then n else if 1 / 2 < r then n + 1 else if even n then n else n + 1)"
    by (simp add: round_half_even_def Let_def n_def r_def)
  moreover have "\<bar>of_int (if r < 1 / 2 then n else if 1 / 2 < r then n + 1
                          else if even n then n else n + 1) - (of_int n + r)\<bar> \<le> 1 / 2"
    using r by (auto simp: abs_if)
  ultimately show ?thesis
    using y by simp
qed

lemma double_error:
  assumes "x \<noteq> 0"
  shows "\<bar>double x - x\<bar> \<le> two_pow (float_exponent x - 52) / 2"
proof -
  let ?u = "two_pow (float_exponent x - 52)"
  have u: "0 < ?u" by (rule two_pow_pos)
  have "double x - x = (of_int (round_half_even (x / ?u)) - x / ?u) * ?u"
    using assms u by (simp add: double_def Let_def field_simps)
  then have "\<bar>double x - x\<bar> = \<bar>of_int (round_half_even (x / ?u)) - x / ?u\<bar> * ?u"
    using u by (simp add: abs_mult)
  also have "\<dots> \<le> (1 / 2) * ?u"
    using round_half_even_error [of "x / ?u"] u by (intro mult_right_mono) simp_all
  finally show ?thesis by simp
qed

lemma two_pow_add: "two_pow (e + int k) = 2 ^ k * two_pow e"
proof (induction k)
  case 0
  then show ?case by simp
next
  case (Suc k)
  have "e + int (Suc k) = (e + int k) + 1"
    by simp
  then have "two_pow (e + int (Suc k)) = two_pow ((e + int k) + 1)"
    by (rule arg_cong)
  then show ?case using Suc by (simp add: two_pow_Suc)
qed

lemma double_relative_error:
  assumes "x \<noteq> 0"
  shows "\<bar>double x - x\<bar> \<le> \<bar>x\<bar> / 2 ^ 53"
proof -
  let ?e = "float_exponent x"
  have "two_pow ?e = 2 ^ 52 * two_pow (?e - 52)"
    using two_pow_add [of "?e - 52" 52] by simp
  then have u: "two_pow (?e - 52) = two_pow ?e / 2 ^ 52" by simp
  have "\<bar>double x - x\<bar> \<le> two_pow (?e - 52) / 2"
    using assms by (rule double_error)
  also have "\<dots> = two_pow ?e / 2 ^ 53" by (simp add: u)
  also have "\<dots> \<le> \<bar>x\<bar> / 2 ^ 53"
    using float_exponent_bounds [OF assms] by (simp add: divide_right_mono)
  finally show ?thesis .
qed

text \<open>The image is 1000 by 1200 and its caption band 240 high, also in floats.\<close>

lemma base_height_value: "base_height = 1200"
  unfolding base_height_def float_1_2_value base_width_def
  by (simp add: double_eval py_int_def)

lemma text_height_value: "text_height = 240"
  unfolding text_height_def float_0_2_value base_height_value
  by (simp add: double_eval py_int_def)

section \<open>Caption font size\<close>

lemma py_int_quotient:
  "0 < b \<Longrightarrow> 0 \<le> a \<Longrightarrow> py_int (of_int a / of_nat b) = a div int b"
proof -
  assume b: "0 < b" and a: "0 \<le> a"
  have "(0::rat) \<le> of_int a / of_nat b"
    using a by simp
  moreover have "\<lfloor>(of_int a :: rat) / of_int (int b)\<rfloor> = a div int b"
    by (rule floor_divide_of_int_eq)
  ultimately show ?thesis
    by (simp add: py_int_def)
qed

lemma font_size_quotient: "font_size text = min 60 (1000 div int (max (length text) 10))"
  unfolding font_size_def base_width_def
  using py_int_quotient [of "max (length text) 10" 1000] by simp

text \<open>
  C10. For every caption text the font size is \<open>min(60, floor(1000 / max(len(text), 10)))\<close>;
  it never exceeds 60, and it is 0 for a text of more than 1000 characters.
\<close>

theorem font_size_bound:
  "font_size text = min 60 (1000 div int (max (length text) 10))
   \<and> font_size text \<le> 60
   \<and> (1000 < length text \<longrightarrow> font_size text = 0)"
proof -
  have eq: "font_size text = min 60 (1000 div int (max (length text) 10))"
    by (rule font_size_quotient)
  have zero: "1000 < length text \<longrightarrow> font_size text = 0"
  proof
    assume long: "1000 < length text"
    then have "max (length text) 10 = length text" by simp
    moreover have "1000 div int (length text) = 0"
      using long by simp
    ultimately show "font_size text = 0"
      using eq by simp
  qed
  from eq zero show ?thesis by simp
qed

theorem font_size_bound_witness:
  "1000 < length (replicate 1001 (CHR ''a'')) \<and> font_size (replicate 1001 (CHR ''a'')) = 0"
  using font_size_bound [of "replicate 1001 (CHR ''a'')"] by simp

section \<open>The cells of \<open>generate_pdf\<close>\<close>

lemma cell_sizes_append: "cell_sizes (ops @ ops') = cell_sizes ops @ cell_sizes ops'"
  by (induction ops rule: cell_sizes.induct) simp_all

lemma cell_sizes_pdf_step:
  "set (cell_sizes (canvas (pdf_step drawable wide s f)))
   \<subseteq> insert (qr_width wide, qr_height wide) (set (cell_sizes (canvas s)))"
  by (auto simp: pdf_step_def Let_def cell_sizes_append)

lemma cell_sizes_pdf_loop:
  "set (cell_sizes (canvas (pdf_loop drawable wide s files)))
   \<subseteq> insert (qr_width wide, qr_height wide) (set (cell_sizes (canvas s)))"
proof (induction files arbitrary: s)
  case Nil
  then show ?case by auto
next
  case (Cons f files)
  have "set (cell_sizes (canvas (pdf_loop drawable wide (pdf_step drawable wide s f) files)))
      \<subseteq> insert (qr_width wide, qr_height wide)
          (set (cell_sizes (canvas (pdf_step drawable wide s f))))"
    by (rule Cons.IH)
  then show ?case
    using cell_sizes_pdf_step [of drawable wide s f] by auto
qed

section \<open>Proofs: the PDF layout\<close>

lemma pdf_loop_snoc:
  "pdf_loop drawable wide s (files @ [f]) = pdf_step drawable wide (pdf_loop drawable wide s files) f"
  by (induction files arbitrary: s) simp_all

lemma qr_height_pos: "0 < wide \<Longrightarrow> 0 < qr_height wide"
  by (simp add: qr_height_def qr_width_def usable_width_def LETTER_WIDTH_def margin_def)

lemma qr_height_fits: "0 < wide \<Longrightarrow> qr_height wide \<le> usable_height"
proof -
  assume w: "0 < wide"
  then have "(1::rat) \<le> of_nat wide" by simp
  then have "(468::rat) * (12/10) / of_nat wide \<le> 468 * (12/10) / 1"
    by (intro divide_left_mono) simp_all
  then show ?thesis
    by (simp add: qr_height_def qr_width_def usable_width_def usable_height_def
        LETTER_WIDTH_def LETTER_HEIGHT_def margin_def)
qed

lemma rows_per_page_pos: "0 < wide \<Longrightarrow> 0 < rows_per_page wide"
proof -
  assume w: "0 < wide"
  have "1 \<le> usable_height / qr_height wide"
    using qr_height_pos [OF w] qr_height_fits [OF w] by simp
  then have "1 \<le> \<lfloor>usable_height / qr_height wide\<rfloor>" by simp
  then show ?thesis by (simp add: rows_per_page_def)
qed

lemma next_row_below_margin:
  assumes w: "0 < wide"
  shows "LETTER_HEIGHT - margin - qr_height wide - of_nat r * qr_height wide - qr_height wide < margin
         \<longleftrightarrow> rows_per_page wide \<le> Suc r"
proof -
  let ?h = "qr_height wide"
  have h: "0 < ?h" using qr_height_pos [OF w] .
  have "LETTER_HEIGHT - margin - ?h - of_nat r * ?h - ?h < margin
        \<longleftrightarrow> usable_height < of_nat (r + 2) * ?h"
    by (simp add: usable_height_def algebra_simps)
  also have "\<dots> \<longleftrightarrow> usable_height / ?h < of_int (int (r + 2))"
    using h by (simp add: pos_divide_less_eq)
  also have "\<dots> \<longleftrightarrow> \<lfloor>usable_height / ?h\<rfloor> < int (r + 2)"
    by (simp only: floor_less_iff)
  also have "\<dots> \<longleftrightarrow> rows_per_page wide \<le> Suc r"
    using rows_per_page_pos [OF w] by (simp add: rows_per_page_def) linarith
  finally show ?thesis .
qed

lemma page_break_after_iff:
  assumes w: "0 < wide"
  shows "page_break_after wide i \<longleftrightarrow>
         Suc i mod wide = 0 \<and> Suc ((i div wide) mod rows_per_page wide) = rows_per_page wide"
proof -
  have "(i div wide) mod rows_per_page wide < rows_per_page wide"
    using rows_per_page_pos [OF w] by simp
  then show ?thesis
    unfolding page_break_after_def cell_y_def
    using next_row_below_margin [OF w, of "(i div wide) mod rows_per_page wide"] by auto
qed

lemma placed_append: "i < length files \<Longrightarrow> placed wide (files @ [f]) i = placed wide files i"
  by (simp add: placed_def nth_append)

lemma pdf_step_after:
  assumes w: "0 < wide" and d: "drawable f"
  shows "pdf_step drawable wide (pdf_after wide files) f = pdf_after wide (files @ [f])"
proof -
  let ?n = "length files"
  let ?rpp = "rows_per_page wide"
  have rpp: "0 < ?rpp" using rows_per_page_pos [OF w] .
  have ops: "concat (map (placed wide (files @ [f])) [0..<?n])
      = concat (map (placed wide files) [0..<?n])"
  proof -
    have eq: "map (placed wide (files @ [f])) [0..<?n] = map (placed wide files) [0..<?n]"
      by (rule map_cong) (simp_all add: placed_append)
    show ?thesis by (simp only: eq)
  qed
  have nth: "(files @ [f]) ! ?n = f" by simp
  show ?thesis
  proof (cases "Suc ?n mod wide = 0")
    case False
    then have m: "Suc ?n mod wide = Suc (?n mod wide)" and dv: "Suc ?n div wide = ?n div wide"
      by (auto simp: mod_Suc div_Suc split: if_splits)
    have lt: "\<not> wide \<le> Suc (?n mod wide)"
      using m w by (metis mod_less_divisor not_le)
    have nb: "\<not> page_break_after wide ?n"
      using False by (simp add: page_break_after_def)
    show ?thesis
      using d lt nb m dv
      by (simp add: pdf_step_def pdf_after_def Let_def ops placed_def cell_x_def cell_y_def
          cell_page_def algebra_simps)
  next
    case True
    then have m: "Suc (?n mod wide) = wide" and dv: "Suc ?n div wide = Suc (?n div wide)"
      using w by (simp_all add: mod_Suc div_Suc split: if_splits)
    show ?thesis
    proof (cases "Suc ((?n div wide) mod ?rpp) = ?rpp")
      case brk: True
      then have pb: "page_break_after wide ?n"
        using True page_break_after_iff [OF w] by simp
      then have below: "cell_y wide ?n - qr_height wide < margin"
        by (simp add: page_break_after_def)
      have r0: "Suc (?n div wide) mod ?rpp = 0" and pg: "Suc (?n div wide) div ?rpp = Suc (?n div wide div ?rpp)"
        using brk by (simp_all add: mod_Suc div_Suc)
      show ?thesis
        using d m pb below True dv r0 pg
        by (simp add: pdf_step_def pdf_after_def Let_def ops placed_def cell_x_def
            cell_page_def cell_y_def [of wide "Suc ?n"])
    next
      case nobrk: False
      then have pb: "\<not> page_break_after wide ?n"
        using page_break_after_iff [OF w] by simp
      then have above: "\<not> cell_y wide ?n - qr_height wide < margin"
        using True by (simp add: page_break_after_def)
      have r0: "Suc (?n div wide) mod ?rpp = Suc (?n div wide mod ?rpp)" and pg: "Suc (?n div wide) div ?rpp = ?n div wide div ?rpp"
        using nobrk by (simp_all add: mod_Suc div_Suc)
      have y': "cell_y wide (Suc ?n) = cell_y wide ?n - qr_height wide"
        using dv r0 by (simp add: cell_y_def algebra_simps)
      show ?thesis
        using d m pb above True dv pg y'
        by (simp add: pdf_step_def pdf_after_def Let_def ops placed_def cell_x_def
            cell_page_def)
    qed
  qed
qed

lemma pdf_start_after: "0 < wide \<Longrightarrow> pdf_start wide = pdf_after wide []"
  by (simp add: pdf_start_def pdf_after_def cell_x_def cell_y_def cell_page_def)

lemma pdf_loop_after:
  "0 < wide \<Longrightarrow> \<forall>f \<in> set files. drawable f \<Longrightarrow>
   pdf_loop drawable wide (pdf_start wide) files = pdf_after wide files"
proof (induction files rule: rev_induct)
  case Nil
  then show ?case by (simp add: pdf_start_after)
next
  case (snoc f files)
  then show ?case
    by (simp add: pdf_loop_snoc pdf_step_after)
qed


lemma cell_page_Suc:
  "0 < wide \<Longrightarrow>
   cell_page wide (Suc i) = (if page_break_after wide i then Suc (cell_page wide i) else cell_page wide i)"
  using rows_per_page_pos [of wide]
  by (auto simp: page_break_after_iff cell_page_def div_Suc mod_Suc split: if_splits)

lemma placements_placed:
  "0 < wide \<Longrightarrow> n \<le> length files \<Longrightarrow>
   placements 0 (concat (map (placed wide files) [0..<n]) @ rest)
   = map (\<lambda>i. (files ! i, cell_page wide i, cell_x wide i, cell_y wide i)) [0..<n]
     @ placements (cell_page wide n) rest"
proof (induction n arbitrary: rest)
  case 0
  then show ?case by (simp add: cell_page_def)
next
  case (Suc n)
  have "placements 0 (concat (map (placed wide files) [0..<n]) @ (placed wide files n @ rest))
      = map (\<lambda>i. (files ! i, cell_page wide i, cell_x wide i, cell_y wide i)) [0..<n]
        @ placements (cell_page wide n) (placed wide files n @ rest)"
    using Suc.prems by (intro Suc.IH) simp_all
  moreover have "placements (cell_page wide n) (placed wide files n @ rest)
      = (files ! n, cell_page wide n, cell_x wide n, cell_y wide n)
        # placements (cell_page wide (Suc n)) rest"
    using Suc.prems(1) by (simp add: placed_def cell_page_Suc)
  ultimately show ?case by simp
qed

lemma full_rows_cover:
  fixes n wide :: nat
  assumes w: "0 < wide"
  shows "n \<le> ((n + wide - 1) div wide) * wide"
proof -
  have "(n + wide - 1) mod wide < wide" using w by simp
  moreover have "(n + wide - 1) div wide * wide + (n + wide - 1) mod wide = n + wide - 1"
    by simp
  ultimately show ?thesis by linarith
qed

lemma row_start_in_range:
  fixes n wide q :: nat
  assumes w: "0 < wide" and q: "q < (n + wide - 1) div wide"
  shows "q * wide < n"
proof -
  from w q have "Suc q * wide \<le> (n + wide - 1) div wide * wide"
    by (intro mult_le_mono1) simp
  also have "\<dots> \<le> n + wide - 1" by simp
  finally show ?thesis using w by simp
qed

lemma div_image:
  fixes n wide :: nat
  assumes w: "0 < wide"
  shows "(\<lambda>i. i div wide) ` {0..<n} = {0..<(n + wide - 1) div wide}"
proof (intro set_eqI iffI)
  fix q
  assume "q \<in> (\<lambda>i. i div wide) ` {0..<n}"
  then obtain i where i: "i < n" and q: "q = i div wide" by auto
  have "i < (n + wide - 1) div wide * wide"
    using i full_rows_cover [OF w, of n] by simp
  then show "q \<in> {0..<(n + wide - 1) div wide}"
    using w q by (simp add: div_less_iff_less_mult)
next
  fix q
  assume "q \<in> {0..<(n + wide - 1) div wide}"
  then have "q * wide < n" using row_start_in_range [OF w, of q n] by simp
  moreover have "(q * wide) div wide = q" using w by simp
  ultimately show "q \<in> (\<lambda>i. i div wide) ` {0..<n}"
    by (metis atLeastLessThan_iff image_eqI zero_le)
qed

lemma ceiling_div:
  fixes n wide :: nat
  assumes w: "0 < wide"
  shows "nat \<lceil>(of_nat n :: rat) / of_nat wide\<rceil> = (n + wide - 1) div wide"
proof -
  let ?k = "(n + wide - 1) div wide"
  have up: "(of_nat n :: rat) / of_nat wide \<le> of_int (int ?k)"
  proof -
    have "(of_nat n :: rat) \<le> of_nat (?k * wide)"
      using full_rows_cover [OF w, of n] by (simp only: of_nat_le_iff)
    then show ?thesis using w by (simp add: pos_divide_le_eq)
  qed
  have low: "of_int (int ?k) - 1 < (of_nat n :: rat) / of_nat wide"
  proof (cases ?k)
    case 0
    have "(0::rat) \<le> of_nat n / of_nat wide" by simp
    then have "(-1::rat) < of_nat n / of_nat wide" by linarith
    then show ?thesis using 0 by simp
  next
    case (Suc q)
    then have "q * wide < n" using row_start_in_range [OF w, of q n] by simp
    then have "(of_nat (q * wide) :: rat) < of_nat n" by (simp only: of_nat_less_iff)
    then have "(of_nat q :: rat) < of_nat n / of_nat wide"
      using w by (simp add: pos_less_divide_eq)
    then show ?thesis using Suc by simp
  qed
  have "\<lceil>(of_nat n :: rat) / of_nat wide\<rceil> = int ?k"
    using low up by (rule ceiling_unique)
  then show ?thesis by simp
qed

lemma row_key_inj:
  assumes w: "0 < wide"
  shows "inj (\<lambda>q. (q div rows_per_page wide,
            LETTER_HEIGHT - margin - qr_height wide - of_nat (q mod rows_per_page wide) * qr_height wide))"
proof (rule injI)
  fix a b
  let ?rpp = "rows_per_page wide"
  assume "(a div ?rpp, LETTER_HEIGHT - margin - qr_height wide - of_nat (a mod ?rpp) * qr_height wide)
        = (b div ?rpp, LETTER_HEIGHT - margin - qr_height wide - of_nat (b mod ?rpp) * qr_height wide)"
  then have d: "a div ?rpp = b div ?rpp"
    and "of_nat (a mod ?rpp) * qr_height wide = of_nat (b mod ?rpp) * qr_height wide"
    by simp_all
  then have "a mod ?rpp = b mod ?rpp"
    using qr_height_pos [OF w] by simp
  with d show "a = b"
    by (metis div_mult_mod_eq)
qed

lemma grid_rows_placed:
  assumes w: "0 < wide"
  shows "card (grid_rows (concat (map (placed wide files) [0..<length files])))
         = nat \<lceil>(of_nat (length files) :: rat) / of_nat wide\<rceil>"
proof -
  let ?n = "length files"
  let ?key = "\<lambda>q. (q div rows_per_page wide,
            LETTER_HEIGHT - margin - qr_height wide - of_nat (q mod rows_per_page wide) * qr_height wide)"
  have "placements 0 (concat (map (placed wide files) [0..<?n]) @ [])
      = map (\<lambda>i. (files ! i, cell_page wide i, cell_x wide i, cell_y wide i)) [0..<?n]
        @ placements (cell_page wide ?n) []"
    using w by (intro placements_placed) simp_all
  then have "grid_rows (concat (map (placed wide files) [0..<?n]))
      = (\<lambda>i. (cell_page wide i, cell_y wide i)) ` {0..<?n}"
    by (simp add: grid_rows_def image_image)
  also have "\<dots> = ?key ` ((\<lambda>i. i div wide) ` {0..<?n})"
    by (simp add: image_image cell_page_def cell_y_def)
  also have "\<dots> = ?key ` {0..<(?n + wide - 1) div wide}"
    using div_image [OF w] by simp
  finally have "card (grid_rows (concat (map (placed wide files) [0..<?n])))
      = card (?key ` {0..<(?n + wide - 1) div wide})"
    by simp
  also have "\<dots> = card {0..<(?n + wide - 1) div wide}"
    using row_key_inj [OF w] by (intro card_image) (rule inj_on_subset, auto)
  finally show ?thesis
    using ceiling_div [OF w, of ?n] by simp
qed

lemma placements_drawn:
  "0 < wide \<Longrightarrow>
   placements 0 (concat (map (placed wide files) [0..<length files]))
   = map (\<lambda>i. (files ! i, cell_page wide i, cell_x wide i, cell_y wide i)) [0..<length files]"
  using placements_placed [of wide "length files" files "[]"] by simp

lemma page_break_resets:
  assumes w: "0 < wide" and b: "page_break_after wide i"
  shows "cell_x wide (Suc i) = margin
    \<and> cell_y wide (Suc i) = LETTER_HEIGHT - margin - qr_height wide
    \<and> cell_page wide (Suc i) = Suc (cell_page wide i)"
proof -
  have m: "Suc i mod wide = 0"
    and r: "Suc ((i div wide) mod rows_per_page wide) = rows_per_page wide"
    using b page_break_after_iff [OF w] by simp_all
  have dv: "Suc i div wide = Suc (i div wide)"
    using m by (simp add: div_Suc)
  have "Suc (i div wide) mod rows_per_page wide = 0"
    using r by (simp add: mod_Suc)
  then show ?thesis
    using m dv b w by (simp add: cell_x_def cell_y_def cell_page_Suc)
qed

text \<open>
  The test \<open>y < margin\<close> is never near a tie for 1 to 10 columns: the height tested
  differs from the margin by at least 4.32 points, far more than the rounding of the
  floats the script computes with, so exact arithmetic takes the same branches.
\<close>

lemma no_tie_arith:
  fixes wide k :: nat
  assumes "1 \<le> wide" and "wide \<le> 10"
  shows "15 * int wide - 13 * int k \<le> -1 \<or> 1 \<le> 15 * int wide - 13 * int k"
  using assms by presburger

lemma break_test_clear_of_tie:
  assumes w: "1 \<le> wide" and w10: "wide \<le> 10"
  shows "432 / 100 \<le> \<bar>cell_y wide i - qr_height wide - margin\<bar>"
proof -
  let ?k = "(i div wide) mod rows_per_page wide + 2"
  let ?d = "15 * int wide - 13 * int ?k"
  have wpos: "(0::rat) < of_nat wide" using w by simp
  have eq: "cell_y wide i - qr_height wide - margin = (216 / 5) * of_int ?d / of_nat wide"
    using wpos
    by (simp add: cell_y_def qr_height_def qr_width_def usable_width_def LETTER_WIDTH_def
        LETTER_HEIGHT_def margin_def field_simps)
  have "?d \<le> -1 \<or> 1 \<le> ?d"
    using w w10 by (rule no_tie_arith)
  then have "1 \<le> \<bar>?d\<bar>" by linarith
  then have "(1::rat) \<le> of_int \<bar>?d\<bar>" by (simp only: of_int_1_le_iff)
  then have d1: "(1::rat) \<le> \<bar>of_int ?d\<bar>" by simp
  have "of_nat wide \<le> (10::rat)" using w10 by simp
  then have "(216 / 5) / 10 \<le> (216 / 5) / (of_nat wide :: rat)"
    using wpos by (intro divide_left_mono) simp_all
  also have "\<dots> \<le> (216 / 5) * \<bar>of_int ?d\<bar> / (of_nat wide :: rat)"
    using d1 wpos by (simp add: divide_le_cancel mult_le_cancel_left1)
  also have "\<dots> = \<bar>216 / 5\<bar> * \<bar>of_int ?d\<bar> / \<bar>of_nat wide :: rat\<bar>"
    by (simp only: abs_of_nat abs_divide abs_numeral)
  also have "\<dots> = \<bar>(216 / 5) * of_int ?d / (of_nat wide :: rat)\<bar>"
    by (simp only: abs_mult abs_divide)
  finally have "(216 / 5) / 10 \<le> \<bar>cell_y wide i - qr_height wide - margin\<bar>"
    by (simp only: eq)
  then show ?thesis by simp
qed

text \<open>
  C2. With 1 to 10 columns and N files that \<open>drawImage\<close> accepts, \<open>generate_pdf\<close>
  returns \<open>True\<close> and its canvas is, image after image, a \<open>drawImage\<close> at the grid
  position of the image followed by a \<open>showPage\<close> exactly when the image completes a row
  and one more row (at height \<open>y - qr_height\<close>) would reach under the bottom margin.
  So all N files are drawn, in order, file \<open>i\<close> in column \<open>i mod wide\<close> (at
  \<open>margin + (i mod wide) * qr_width\<close>); the canvas has \<open>ceil(N / wide)\<close> grid rows, the
  last one partial when \<open>wide\<close> does not divide N; the image after a page break is
  on the next page at the top-left cell; and the height tested against the margin is
  never within 4.32 points of it.
\<close>

theorem generate_pdf_layout:
  assumes "1 \<le> wide" and "wide \<le> 10" and "\<forall>f \<in> set qr_files. drawable f"
  shows "generate_pdf drawable qr_files wide
           = (True, concat (map (placed wide qr_files) [0..<length qr_files]))
    \<and> placements 0 (snd (generate_pdf drawable qr_files wide))
        = map (\<lambda>i. (qr_files ! i, cell_page wide i, cell_x wide i, cell_y wide i))
            [0..<length qr_files]
    \<and> map fst (placements 0 (snd (generate_pdf drawable qr_files wide))) = qr_files
    \<and> card (grid_rows (snd (generate_pdf drawable qr_files wide)))
        = nat \<lceil>(of_nat (length qr_files) :: rat) / of_nat wide\<rceil>
    \<and> (\<forall>i. page_break_after wide i \<longleftrightarrow>
             Suc i mod wide = 0 \<and> cell_y wide i - qr_height wide < margin)
    \<and> (\<forall>i. page_break_after wide i \<longrightarrow>
             cell_x wide (Suc i) = margin
             \<and> cell_y wide (Suc i) = LETTER_HEIGHT - margin - qr_height wide
             \<and> cell_page wide (Suc i) = Suc (cell_page wide i))
    \<and> (\<forall>i. 432 / 100 \<le> \<bar>cell_y wide i - qr_height wide - margin\<bar>)"
proof -
  let ?ops = "concat (map (placed wide qr_files) [0..<length qr_files])"
  have w: "0 < wide" using assms(1) by simp
  have run: "generate_pdf drawable qr_files wide = (True, ?ops)"
    using w assms(3) by (simp add: generate_pdf_def pdf_loop_after pdf_after_def)
  have pl: "placements 0 ?ops
      = map (\<lambda>i. (qr_files ! i, cell_page wide i, cell_x wide i, cell_y wide i))
          [0..<length qr_files]"
    using w by (rule placements_drawn)
  have files: "map fst (placements 0 ?ops) = qr_files"
    by (simp add: pl o_def map_nth)
  have rows: "card (grid_rows ?ops) = nat \<lceil>(of_nat (length qr_files) :: rat) / of_nat wide\<rceil>"
    using w by (rule grid_rows_placed)
  have brk: "\<forall>i. page_break_after wide i \<longleftrightarrow>
             Suc i mod wide = 0 \<and> cell_y wide i - qr_height wide < margin"
    by (simp add: page_break_after_def)
  have reset: "\<forall>i. page_break_after wide i \<longrightarrow>
             cell_x wide (Suc i) = margin
             \<and> cell_y wide (Suc i) = LETTER_HEIGHT - margin - qr_height wide
             \<and> cell_page wide (Suc i) = Suc (cell_page wide i)"
    using page_break_resets [OF w] by blast
  have gap: "\<forall>i. 432 / 100 \<le> \<bar>cell_y wide i - qr_height wide - margin\<bar>"
    using break_test_clear_of_tie [OF assms(1) assms(2)] by blast
  show ?thesis
    unfolding run snd_conv
    using pl files rows brk reset gap by blast
qed

theorem generate_pdf_layout_witness:
  "fst (generate_pdf (\<lambda>f. True) [''r0'', ''r1'', ''r2'', ''r3'', ''r4'', ''r5'', ''r6''] 3) = True
   \<and> map fst (placements 0
        (snd (generate_pdf (\<lambda>f. True) [''r0'', ''r1'', ''r2'', ''r3'', ''r4'', ''r5'', ''r6''] 3)))
      = [''r0'', ''r1'', ''r2'', ''r3'', ''r4'', ''r5'', ''r6'']
   \<and> card (grid_rows
        (snd (generate_pdf (\<lambda>f. True) [''r0'', ''r1'', ''r2'', ''r3'', ''r4'', ''r5'', ''r6''] 3)))
      = 3
   \<and> snd (generate_pdf (\<lambda>f. True) [''r0'', ''r1''] 1)
      = [DrawImage ''r0'' 72 (792 / 5) 468 (2808 / 5), ShowPage,
         DrawImage ''r1'' 72 (792 / 5) 468 (2808 / 5), ShowPage]"
proof -
  have "(1::nat) \<le> 3" and "(3::nat) \<le> 10"
    and "\<forall>f \<in> set [''r0'', ''r1'', ''r2'', ''r3'', ''r4'', ''r5'', ''r6'']. (\<lambda>f. True) f"
    by simp_all
  note layout = generate_pdf_layout [OF this]
  from layout have "fst (generate_pdf (\<lambda>f. True)
      [''r0'', ''r1'', ''r2'', ''r3'', ''r4'', ''r5'', ''r6''] 3) = True"
    by (elim conjE) (simp only: fst_conv)
  moreover from layout have "map fst (placements 0
        (snd (generate_pdf (\<lambda>f. True) [''r0'', ''r1'', ''r2'', ''r3'', ''r4'', ''r5'', ''r6''] 3)))
      = [''r0'', ''r1'', ''r2'', ''r3'', ''r4'', ''r5'', ''r6'']"
    by (elim conjE)
  moreover from layout have "card (grid_rows
        (snd (generate_pdf (\<lambda>f. True) [''r0'', ''r1'', ''r2'', ''r3'', ''r4'', ''r5'', ''r6''] 3)))
      = nat \<lceil>(of_nat (length [''r0'', ''r1'', ''r2'', ''r3'', ''r4'', ''r5'', ''r6'']) :: rat)
              / of_nat 3\<rceil>"
    by (elim conjE)
  then have "card (grid_rows
        (snd (generate_pdf (\<lambda>f. True) [''r0'', ''r1'', ''r2'', ''r3'', ''r4'', ''r5'', ''r6''] 3)))
      = 3"
    using ceiling_div [of 3 7] by simp
  moreover have "snd (generate_pdf (\<lambda>f. True) [''r0'', ''r1''] 1)
      = [DrawImage ''r0'' 72 (792 / 5) 468 (2808 / 5), ShowPage,
         DrawImage ''r1'' 72 (792 / 5) 468 (2808 / 5), ShowPage]"
    by (simp add: generate_pdf_def pdf_start_def pdf_step_def Let_def qr_height_def qr_width_def
        usable_width_def LETTER_WIDTH_def LETTER_HEIGHT_def margin_def)
  ultimately show ?thesis by (intro conjI)
qed

section \<open>Proofs: the table-assembly loop\<close>

lemma add_pictures_fill:
  "length row \<le> k \<Longrightarrow>
   add_pictures (map (\<lambda>tf. [tf]) filled @ replicate k []) (length filled) row
   = Inr (map (\<lambda>tf. [tf]) (filled @ row) @ replicate (k - length row) [])"
proof (induction row arbitrary: filled k)
  case Nil
  then show ?case by simp
next
  case (Cons tf row)
  then obtain k' where k: "k = Suc k'" by (cases k) auto
  have upd: "(map (\<lambda>tf. [tf]) filled @ replicate k [])
        [length filled := (map (\<lambda>tf. [tf]) filled @ replicate k []) ! length filled @ [tf]]
      = map (\<lambda>tf. [tf]) (filled @ [tf]) @ replicate k' []"
    by (simp add: k nth_append list_update_append)
  have "add_pictures (map (\<lambda>tf. [tf]) (filled @ [tf]) @ replicate k' []) (length (filled @ [tf])) row
      = Inr (map (\<lambda>tf. [tf]) ((filled @ [tf]) @ row) @ replicate (k' - length row) [])"
    using Cons.prems k by (intro Cons.IH) simp
  then show ?case
    using upd k by simp
qed

lemma add_pictures_row:
  "add_pictures (add_table (length row)) 0 row = Inr (map (\<lambda>tf. [tf]) row)"
  using add_pictures_fill [of row "length row" "[]"] by (simp add: add_table_def)

lemma docx_loop_short:
  "length cur + length files < wide \<Longrightarrow> docx_loop wide files cur doc = Inr (cur @ files, doc)"
  by (induction files arbitrary: cur) (auto simp: Let_def)

lemma docx_loop_fill:
  "length cur + length pre = wide \<Longrightarrow> pre \<noteq> [] \<Longrightarrow>
   docx_loop wide (pre @ rest) cur doc = docx_loop wide rest [] (doc @ table_of_row (cur @ pre))"
proof (induction pre arbitrary: cur)
  case Nil
  then show ?case by simp
next
  case (Cons tf pre)
  show ?case
  proof (cases "pre = []")
    case True
    then have len: "length (cur @ [tf]) = wide" using Cons.prems by simp
    have "add_pictures (add_table wide) 0 (cur @ [tf]) = Inr (map (\<lambda>tf. [tf]) (cur @ [tf]))"
      using add_pictures_row [of "cur @ [tf]"] len by simp
    then show ?thesis
      using True len by (simp add: table_of_row_def)
  next
    case False
    then have "length (cur @ [tf]) \<noteq> wide" using Cons.prems by (cases pre) auto
    moreover have "docx_loop wide (pre @ rest) (cur @ [tf]) doc
        = docx_loop wide rest [] (doc @ table_of_row ((cur @ [tf]) @ pre))"
      using Cons.prems False by (intro Cons.IH) auto
    ultimately show ?thesis by simp
  qed
qed

lemma docx_loop_rows:
  "0 < wide \<Longrightarrow>
   docx_loop wide files [] doc
   = Inr (drop (wide * (length files div wide)) files,
          doc @ concat (map table_of_row (full_rows wide files)))"
proof (induction "length files" arbitrary: files doc rule: less_induct)
  case less
  show ?case
  proof (cases "length files < wide")
    case True
    then show ?thesis
      using docx_loop_short [of "[]" files wide doc] by (simp add: full_rows.simps [of wide files])
  next
    case False
    then have split: "files = take wide files @ drop wide files" and nonempty: "take wide files \<noteq> []"
      using less.prems by auto
    have "docx_loop wide (take wide files @ drop wide files) [] doc
        = docx_loop wide (drop wide files) [] (doc @ table_of_row ([] @ take wide files))"
      using False nonempty by (intro docx_loop_fill) auto
    then have step: "docx_loop wide files [] doc
        = docx_loop wide (drop wide files) [] (doc @ table_of_row (take wide files))"
      by simp
    have ih: "docx_loop wide (drop wide files) [] (doc @ table_of_row (take wide files))
        = Inr (drop (wide * (length (drop wide files) div wide)) (drop wide files),
               (doc @ table_of_row (take wide files))
               @ concat (map table_of_row (full_rows wide (drop wide files))))"
      using False less.prems by (intro less.hyps) auto
    have d: "length files div wide = Suc ((length files - wide) div wide)"
      using False less.prems by (simp add: le_div_geq)
    show ?thesis
      using step ih False less.prems
      by (simp add: full_rows.simps [of wide files] d add.commute)
  qed
qed

lemma length_full_rows: "0 < wide \<Longrightarrow> length (full_rows wide xs) = length xs div wide"
proof (induction wide xs rule: full_rows.induct)
  case (1 wide xs)
  then show ?case
    by (cases "length xs < wide") (simp_all add: full_rows.simps [of wide xs] le_div_geq)
qed

lemma full_rows_width: "row \<in> set (full_rows wide xs) \<Longrightarrow> length row = wide"
proof (induction wide xs rule: full_rows.induct)
  case (1 wide xs)
  then show ?case
    by (cases "wide = 0 \<or> length xs < wide") (auto simp: full_rows.simps [of wide xs])
qed

lemma concat_full_rows:
  "0 < wide \<Longrightarrow> concat (full_rows wide xs) = take (wide * (length xs div wide)) xs"
proof (induction wide xs rule: full_rows.induct)
  case (1 wide xs)
  show ?case
  proof (cases "length xs < wide")
    case True
    then show ?thesis by (simp add: full_rows.simps [of wide xs])
  next
    case False
    then have d: "length xs div wide = Suc ((length xs - wide) div wide)"
      using 1 by (simp add: le_div_geq)
    have "take wide xs @ take (wide * ((length xs - wide) div wide)) (drop wide xs)
        = take (wide + wide * ((length xs - wide) div wide)) xs"
      by (simp add: take_add)
    then show ?thesis
      using 1 False by (simp add: full_rows.simps [of wide xs] d)
  qed
qed

lemma full_rows_nth:
  "0 < wide \<Longrightarrow> i < length xs div wide \<Longrightarrow> full_rows wide xs ! i = take wide (drop (i * wide) xs)"
proof (induction i arbitrary: xs)
  case 0
  then have "\<not> length xs < wide"
    by (metis div_less less_nat_zero_code)
  then show ?case using 0 by (simp add: full_rows.simps [of wide xs])
next
  case (Suc i)
  then have ge: "\<not> length xs < wide"
    by (metis div_less less_nat_zero_code)
  then have "length xs div wide = Suc ((length xs - wide) div wide)"
    using Suc.prems by (simp add: le_div_geq)
  then have "i < length (drop wide xs) div wide"
    using Suc.prems by simp
  then have "full_rows wide (drop wide xs) ! i = take wide (drop (i * wide) (drop wide xs))"
    using Suc.prems by (intro Suc.IH) simp_all
  then show ?case
    using ge Suc.prems by (simp add: full_rows.simps [of wide xs] add.commute)
qed

lemma doc_tables_rows:
  "doc_tables (concat (map table_of_row rows)) = map (map (\<lambda>tf. [tf])) rows"
  by (induction rows) (simp_all add: table_of_row_def)

lemma concat_singletons: "concat (map (\<lambda>tf. [tf]) row) = row"
  by (induction row) simp_all

lemma doc_images_rows: "doc_images (concat (map table_of_row rows)) = concat rows"
  by (induction rows) (simp_all add: doc_images_def table_of_row_def concat_singletons)

text \<open>
  C1. With 1 to 10 columns and any sequence of N image files, the word-processor path
  returns a document with exactly \<open>N div wide\<close> tables; table number \<open>i\<close> has \<open>wide\<close>
  cells holding, one picture each, the files \<open>i * wide, ..., i * wide + wide - 1\<close> in
  order; the pictures of the document are the first \<open>wide * (N div wide)\<close> files, and
  the remaining \<open>N mod wide\<close> files are what is left in \<open>current_row\<close> at the end, never
  added (when the file names differ from each other, none of them is in the document).
\<close>

theorem docx_full_rows_only:
  assumes "1 \<le> wide" and "wide \<le> 10"
  shows "\<exists>doc. docx_document wide files = Inr doc
    \<and> docx_loop wide files [] [] = Inr (drop (length files - length files mod wide) files, doc)
    \<and> length (doc_tables doc) = length files div wide
    \<and> (\<forall>i < length files div wide.
          doc_tables doc ! i = map (\<lambda>tf. [tf]) (take wide (drop (i * wide) files)))
    \<and> (\<forall>t \<in> set (doc_tables doc). length t = wide \<and> (\<forall>c \<in> set t. length c = 1))
    \<and> doc_images doc = take (wide * (length files div wide)) files
    \<and> length (doc_images doc) = length files - length files mod wide
    \<and> (distinct files \<longrightarrow>
          set (drop (length files - length files mod wide) files) \<inter> set (doc_images doc) = {})"
proof -
  let ?n = "length files"
  let ?doc = "concat (map table_of_row (full_rows wide files))"
  have w: "0 < wide" using assms by simp
  have cut: "wide * (?n div wide) = ?n - ?n mod wide"
    by (simp add: minus_mod_eq_mult_div)
  have loop: "docx_loop wide files [] [] = Inr (drop (?n - ?n mod wide) files, ?doc)"
    using docx_loop_rows [OF w, of files "[]"] cut by simp
  have tables: "doc_tables ?doc = map (map (\<lambda>tf. [tf])) (full_rows wide files)"
    by (rule doc_tables_rows)
  have nth: "\<forall>i < ?n div wide.
      doc_tables ?doc ! i = map (\<lambda>tf. [tf]) (take wide (drop (i * wide) files))"
    using w by (simp add: tables length_full_rows full_rows_nth)
  have cells: "\<forall>t \<in> set (doc_tables ?doc). length t = wide \<and> (\<forall>c \<in> set t. length c = 1)"
    by (auto simp: tables full_rows_width)
  have imgs: "doc_images ?doc = take (wide * (?n div wide)) files"
    using w by (simp add: doc_images_rows concat_full_rows)
  have len: "length (doc_images ?doc) = ?n - ?n mod wide"
    using cut by (simp add: imgs)
  have rest: "distinct files \<longrightarrow>
      set (drop (?n - ?n mod wide) files) \<inter> set (doc_images ?doc) = {}"
  proof
    assume "distinct files"
    then have "distinct (take (?n - ?n mod wide) files @ drop (?n - ?n mod wide) files)"
      by simp
    then have "set (take (?n - ?n mod wide) files) \<inter> set (drop (?n - ?n mod wide) files) = {}"
      by (simp only: distinct_append)
    then show "set (drop (?n - ?n mod wide) files) \<inter> set (doc_images ?doc) = {}"
      using cut by (simp add: imgs Int_commute)
  qed
  have "docx_document wide files = Inr ?doc"
    by (simp add: docx_document_def loop)
  then show ?thesis
    using loop tables nth cells imgs len rest w
    by (intro exI [of _ ?doc]) (simp add: length_full_rows)
qed

theorem docx_full_rows_only_witness:
  "docx_document 3 [''r0'', ''r1'', ''r2'', ''r3'', ''r4'', ''r5'', ''r6'']
     = Inr [Table [[''r0''], [''r1''], [''r2'']], Paragraph,
            Table [[''r3''], [''r4''], [''r5'']], Paragraph]
   \<and> (\<exists>doc. docx_document 3 [''r0'', ''r1'', ''r2'', ''r3'', ''r4'', ''r5'', ''r6''] = Inr doc
        \<and> length (doc_tables doc) = 2
        \<and> doc_images doc = [''r0'', ''r1'', ''r2'', ''r3'', ''r4'', ''r5''])"
proof -
  have "\<exists>doc. docx_document 3 [''r0'', ''r1'', ''r2'', ''r3'', ''r4'', ''r5'', ''r6''] = Inr doc
        \<and> length (doc_tables doc) = 2
        \<and> doc_images doc = [''r0'', ''r1'', ''r2'', ''r3'', ''r4'', ''r5'']"
    using docx_full_rows_only [of 3 "[''r0'', ''r1'', ''r2'', ''r3'', ''r4'', ''r5'', ''r6'']"]
    by auto
  moreover have "docx_document 3 [''r0'', ''r1'', ''r2'', ''r3'', ''r4'', ''r5'', ''r6'']
     = Inr [Table [[''r0''], [''r1''], [''r2'']], Paragraph,
            Table [[''r3''], [''r4''], [''r5'']], Paragraph]"
    by (simp add: docx_document_def add_table_def numeral_3_eq_3)
  ultimately show ?thesis by simp
qed

section \<open>Proofs: renderer, fan-out and join\<close>

lemma path_join_nonempty: "b \<noteq> [] \<Longrightarrow> path_join a b \<noteq> []"
  by (simp add: path_join_def)

lemma render_saved_as:
  "render_labeled_image env args = Inr img \<Longrightarrow> saved_as img \<noteq> []"
  by (auto simp: render_labeled_image_def Let_def path_join_nonempty
      split: prod.splits sum.splits option.splits if_splits)

lemma render_image_size:
  "render_labeled_image env args = Inr img \<Longrightarrow>
   image_width img = base_width \<and> image_height img = base_height"
  by (auto simp: render_labeled_image_def Let_def
      split: prod.splits sum.splits option.splits if_splits)

lemma generate_single_qr_result:
  assumes "generate_single_qr env args = Inr (k, tf)"
  shows "k = fst args"
    and "tf = Some f \<Longrightarrow> f \<noteq> [] \<and> (\<exists>img. render_labeled_image env args = Inr img \<and> f = saved_as img)"
    and "tf = None \<Longrightarrow> (\<exists>e. render_labeled_image env args = Inl e)"
  using assms render_saved_as [of env args]
  by (auto simp: generate_single_qr_def split: prod.splits sum.splits option.splits if_splits)

lemma generate_single_qr_quiet:
  "generate_single_qr env (row_num, cell_value, w, iw, ih, tmpdirname, False)
   = Inr (row_num,
          case render_labeled_image env (row_num, cell_value, w, iw, ih, tmpdirname, False) of
            Inl e \<Rightarrow> None | Inr img \<Rightarrow> Some (saved_as img))"
  by (simp add: generate_single_qr_def split: sum.splits)

lemma quiet_never_aborts:
  "\<not> aborts env (row_num, cell_value, w, iw, ih, tmpdirname, False)"
  by (simp add: aborts_def generate_single_qr_quiet)

lemma row_file_cases:
  "row_file env args = [] \<or> (\<exists>f. f \<noteq> [] \<and> generate_single_qr env args = Inr (fst args, Some f)
      \<and> row_file env args = [(fst args, f)])"
proof (cases "generate_single_qr env args")
  case (Inl e)
  then show ?thesis by (simp add: row_file_def)
next
  case (Inr r)
  obtain k tf where r: "r = (k, tf)" by (cases r)
  show ?thesis
  proof (cases tf)
    case None
    then show ?thesis using Inr r by (simp add: row_file_def)
  next
    case (Some f)
    then have "k = fst args" and "f \<noteq> []"
      using generate_single_qr_result(1) [of env args k tf]
        generate_single_qr_result(2) [of env args k tf f] Inr r by simp_all
    then show ?thesis using Inr r Some by (simp add: row_file_def)
  qed
qed

lemma rendered_Cons: "rendered env (args # argss) = row_file env args @ rendered env argss"
  by (simp add: rendered_def)

lemma collect_result_ok:
  assumes "\<not> aborts env args"
  shows "collect_result env verbose s (args, generate_single_qr env args)
    = Inr (s\<lparr>results := store_all (row_file env args) (results s),
             advanced := advanced s + (if verbose then 0 else length (row_file env args))\<rparr>)"
proof (cases "generate_single_qr env args")
  case (Inl e)
  then have "console_print env (loop_error_text (fst args) e) = None"
    using assms by (simp add: aborts_def)
  then show ?thesis using Inl by (simp add: collect_result_def row_file_def)
next
  case (Inr r)
  obtain k tf where r: "r = (k, tf)" by (cases r)
  show ?thesis
  proof (cases tf)
    case None
    then show ?thesis using Inr r by (simp add: collect_result_def row_file_def)
  next
    case (Some f)
    then have "f \<noteq> []"
      using generate_single_qr_result(2) [of env args k tf f] Inr r by simp
    then show ?thesis
      using Inr r Some by (simp add: collect_result_def row_file_def Let_def)
  qed
qed

lemma store_all_append: "store_all (kfs @ kfs') d = store_all kfs' (store_all kfs d)"
  by (induction kfs arbitrary: d) auto

lemma collect_loop_ok:
  "\<forall>args \<in> set completed. \<not> aborts env args \<Longrightarrow>
   collect_loop env verbose s (map (\<lambda>args. (args, generate_single_qr env args)) completed)
   = Inr (s\<lparr>results := store_all (rendered env completed) (results s),
            advanced := advanced s + (if verbose then 0 else length (rendered env completed))\<rparr>)"
proof (induction completed arbitrary: s)
  case Nil
  then show ?case by (simp add: rendered_def)
next
  case (Cons args completed)
  let ?s' = "s\<lparr>results := store_all (row_file env args) (results s),
             advanced := advanced s + (if verbose then 0 else length (row_file env args))\<rparr>"
  have "collect_result env verbose s (args, generate_single_qr env args) = Inr ?s'"
    using Cons.prems by (intro collect_result_ok) simp
  moreover have "collect_loop env verbose ?s'
      (map (\<lambda>args. (args, generate_single_qr env args)) completed)
    = Inr (?s'\<lparr>results := store_all (rendered env completed) (results ?s'),
            advanced := advanced ?s' + (if verbose then 0 else length (rendered env completed))\<rparr>)"
    using Cons.prems by (intro Cons.IH) simp
  ultimately show ?case
    by (simp add: rendered_Cons store_all_append)
qed

lemma collect_result_abort:
  assumes "aborts env args"
  shows "\<exists>e. collect_result env verbose s (args, generate_single_qr env args) = Inl e"
  using assms by (auto simp: aborts_def collect_result_def split: sum.splits)

lemma collect_loop_abort:
  "\<exists>args \<in> set completed. aborts env args \<Longrightarrow>
   \<exists>e. collect_loop env verbose s (map (\<lambda>args. (args, generate_single_qr env args)) completed)
        = Inl e"
proof (induction completed arbitrary: s)
  case Nil
  then show ?case by simp
next
  case (Cons args completed)
  show ?case
  proof (cases "aborts env args")
    case True
    then obtain e where "collect_result env verbose s (args, generate_single_qr env args) = Inl e"
      using collect_result_abort by blast
    then show ?thesis by simp
  next
    case False
    then have later: "\<exists>args \<in> set completed. aborts env args"
      using Cons.prems by simp
    obtain s' where "collect_result env verbose s (args, generate_single_qr env args) = Inr s'"
      using collect_result_ok [OF False] by blast
    then show ?thesis
      using Cons.IH [OF later, of s'] by simp
  qed
qed

lemma fan_out_ok:
  "\<forall>args \<in> set completed. \<not> aborts env args \<Longrightarrow>
   fan_out env verbose completed
   = Inr \<lparr>results = store_all (rendered env completed) [],
          advanced = (if verbose then 0 else length (rendered env completed))\<rparr>"
  by (simp add: fan_out_def collect_loop_ok)

lemma fan_out_abort:
  "\<exists>args \<in> set completed. aborts env args \<Longrightarrow> \<exists>e. fan_out env verbose completed = Inl e"
  unfolding fan_out_def by (rule collect_loop_abort)

lemma map_of_store_all: "map_of (store_all kfs d) = map_of d ++ map_of (rev kfs)"
proof (induction kfs arbitrary: d)
  case Nil
  then show ?case by simp
next
  case (Cons kf kfs)
  obtain k f where kf: "kf = (k, f)" by (cases kf)
  have "map_of (store_all kfs (dict_set d k f)) = map_of (dict_set d k f) ++ map_of (rev kfs)"
    by (rule Cons.IH)
  then show ?case
    by (simp add: kf dict_set_def update_conv' map_add_upd_left)
qed

lemma distinct_store_all: "distinct (map fst d) \<Longrightarrow> distinct (map fst (store_all kfs d))"
proof (induction kfs arbitrary: d)
  case Nil
  then show ?case by simp
next
  case (Cons kf kfs)
  obtain k f where kf: "kf = (k, f)" by (cases kf)
  show ?case
    using Cons by (simp add: kf dict_set_def distinct_update)
qed

lemma map_fst_row_file: "set (map fst (row_file env args)) \<subseteq> {fst args}"
  using row_file_cases [of env args] by auto

lemma map_fst_rendered_subseq: "set (map fst (rendered env argss)) \<subseteq> set (map fst argss)"
proof (induction argss)
  case Nil
  then show ?case by (simp add: rendered_def)
next
  case (Cons args argss)
  then show ?case
    using map_fst_row_file [of env args] by (auto simp: rendered_Cons)
qed

lemma distinct_rendered: "distinct (map fst argss) \<Longrightarrow> distinct (map fst (rendered env argss))"
proof (induction argss)
  case Nil
  then show ?case by (simp add: rendered_def)
next
  case (Cons args argss)
  have "fst args \<notin> set (map fst (rendered env argss))"
    using Cons.prems map_fst_rendered_subseq [of env argss] by auto
  then have apart: "set (map fst (row_file env args)) \<inter> set (map fst (rendered env argss)) = {}"
    using map_fst_row_file [of env args] by blast
  have one: "distinct (map fst (row_file env args))"
    using row_file_cases [of env args] by auto
  have rest: "distinct (map fst (rendered env argss))"
    using Cons by simp
  show ?case
    unfolding rendered_Cons map_append distinct_append
    using one rest apart by blast
qed

lemma in_row_file:
  "(k, f) \<in> set (row_file env args) \<longleftrightarrow> generate_single_qr env args = Inr (k, Some f)"
proof (cases "generate_single_qr env args")
  case (Inl e)
  then show ?thesis by (simp add: row_file_def)
next
  case (Inr r)
  obtain k' tf where r: "r = (k', tf)" by (cases r)
  show ?thesis using Inr r by (cases tf) (auto simp: row_file_def)
qed

lemma in_rendered:
  "(k, f) \<in> set (rendered env argss) \<longleftrightarrow>
   (\<exists>args \<in> set argss. generate_single_qr env args = Inr (k, Some f))"
  by (simp add: rendered_def in_row_file)

lemma store_all_same_set:
  assumes "distinct (map fst kfs)"
  shows "distinct (map fst (store_all kfs [])) \<and> set (store_all kfs []) = set kfs"
proof -
  have d: "distinct (map fst (store_all kfs []))"
    by (rule distinct_store_all) simp
  have "map_of (store_all kfs []) = map_of (rev kfs)"
    by (simp add: map_of_store_all)
  moreover have "distinct (map fst (rev kfs))"
    using assms by (simp add: rev_map [symmetric])
  ultimately have "set (store_all kfs []) = set (rev kfs)"
    using d by (simp add: map_of_inject_set)
  then show ?thesis using d by simp
qed

lemma lookup_each_present:
  "distinct (map fst d) \<Longrightarrow> set kvs \<subseteq> set d \<Longrightarrow> lookup_each d (map fst kvs) = Inr (map snd kvs)"
proof (induction kvs)
  case Nil
  then show ?case by simp
next
  case (Cons kv kvs)
  obtain k v where kv: "kv = (k, v)" by (cases kv)
  have "map_of d k = Some v"
    using Cons.prems kv by simp
  then show ?case
    using Cons by (simp add: kv dict_get_def)
qed

lemma map_fst_sort_key: "map fst (sort_key fst d) = sort (map fst d)"
proof -
  have "mset (map fst (sort_key fst d)) = mset (map fst d)" by simp
  moreover have "sorted (map fst (sort_key fst d))" by simp
  ultimately have "sort (map fst d) = map fst (sort_key fst d)"
    by (rule properties_for_sort)
  then show ?thesis by simp
qed

lemma distinct_keys_sort_key:
  "distinct (map fst d) \<Longrightarrow> distinct (map fst (sort_key fst d))"
  by (simp add: map_fst_sort_key)

lemma all_temp_files_sorted:
  assumes "distinct (map fst d)"
  shows "all_temp_files d = Inr (map snd (sort_key fst d))"
proof -
  have "lookup_each d (map fst (sort_key fst d)) = Inr (map snd (sort_key fst d))"
    using assms by (intro lookup_each_present) simp_all
  then show ?thesis
    by (simp add: all_temp_files_def dict_keys_def map_fst_sort_key)
qed

lemma sort_key_same_set:
  assumes "distinct (map fst d)" and "distinct (map fst d')" and "set d = set d'"
  shows "sort_key fst d = sort_key fst d'"
proof (rule map_sorted_distinct_set_unique [where f = fst])
  show "inj_on fst (set (sort_key fst d) \<union> set (sort_key fst d'))"
    using assms by (simp add: distinct_map)
  show "sorted (map fst (sort_key fst d))" and "sorted (map fst (sort_key fst d'))"
    by simp_all
  show "distinct (map fst (sort_key fst d))" and "distinct (map fst (sort_key fst d'))"
    using assms by (simp_all add: distinct_keys_sort_key)
  show "set (sort_key fst d) = set (sort_key fst d')"
    using assms by simp
qed

lemma rendered_same_set:
  assumes "set completed = set argss"
  shows "set (rendered env completed) = set (rendered env argss)"
proof (rule set_eqI)
  fix kf :: "nat \<times> string"
  obtain k f where kf: "kf = (k, f)" by (cases kf)
  show "kf \<in> set (rendered env completed) \<longleftrightarrow> kf \<in> set (rendered env argss)"
    by (simp only: kf in_rendered assms)
qed

text \<open>The join, whatever the order of completion.\<close>

lemma join_any_order:
  assumes perm: "mset completed = mset argss" and dist: "distinct (map fst argss)"
    and quiet: "\<forall>args \<in> set argss. \<not> aborts env args"
  shows "\<exists>s. fan_out env verbose completed = Inr s
           \<and> distinct (map fst (results s))
           \<and> set (results s) = set (rendered env argss)
           \<and> advanced s = (if verbose then 0 else length (rendered env completed))"
    and "joined_files env verbose completed = Inr (map snd (sort_key fst (rendered env argss)))"
proof -
  let ?d = "store_all (rendered env completed) []"
  have sets: "set completed = set argss"
    using perm by (rule mset_eq_setD)
  then have run: "fan_out env verbose completed
      = Inr \<lparr>results = ?d, advanced = (if verbose then 0 else length (rendered env completed))\<rparr>"
    using quiet by (intro fan_out_ok) simp
  have "mset (map fst completed) = mset (map fst argss)"
    using perm by simp
  then have "distinct (map fst completed)"
    using dist by (metis mset_eq_imp_distinct_iff)
  then have dr: "distinct (map fst (rendered env completed))"
    by (rule distinct_rendered)
  have same: "set (rendered env completed) = set (rendered env argss)"
    using sets by (rule rendered_same_set)
  have dd: "distinct (map fst ?d)"
    using store_all_same_set [OF dr] by simp
  have sd: "set ?d = set (rendered env argss)"
    using store_all_same_set [OF dr] same by simp
  show "\<exists>s. fan_out env verbose completed = Inr s
           \<and> distinct (map fst (results s))
           \<and> set (results s) = set (rendered env argss)
           \<and> advanced s = (if verbose then 0 else length (rendered env completed))"
    using run dd sd by simp
  have "sort_key fst ?d = sort_key fst (rendered env argss)"
    using dd distinct_rendered [OF dist] sd by (rule sort_key_same_set)
  then show "joined_files env verbose completed
      = Inr (map snd (sort_key fst (rendered env argss)))"
    using all_temp_files_sorted [OF dd] run by (simp add: joined_files_def)
qed

lemma join_aborted:
  assumes perm: "mset completed = mset argss"
    and loud: "\<exists>args \<in> set argss. aborts env args"
  shows "\<exists>e. joined_files env verbose completed = Inl e"
proof -
  have "set completed = set argss"
    using perm by (rule mset_eq_setD)
  then have "\<exists>args \<in> set completed. aborts env args"
    using loud by simp
  then obtain e where "fan_out env verbose completed = Inl e"
    using fan_out_abort by blast
  then show ?thesis by (simp add: joined_files_def)
qed

lemma quiet_args_never_abort: "\<not> args_verbose_of args \<Longrightarrow> \<not> aborts env args"
proof -
  assume q: "\<not> args_verbose_of args"
  obtain row_num cell_value w iw ih tmpdirname vb
    where a: "args = (row_num, cell_value, w, iw, ih, tmpdirname, vb)"
    by (cases args)
  then have "vb = False" using q by (simp add: args_verbose_of_def)
  then show ?thesis using a quiet_never_aborts by simp
qed

lemma advanced_counts_rendered:
  "\<forall>args \<in> set completed. \<not> aborts env args \<Longrightarrow>
   \<exists>s. fan_out env verbose completed = Inr s
     \<and> advanced s = (if verbose then 0 else length (rendered env completed))"
  by (simp add: fan_out_ok)

lemma process_args_rows:
  "map fst (process_args_docx valid_rows qr_width_mm tmpdirname verbose) = map fst valid_rows"
  "map fst (process_args_pdf valid_rows tmpdirname verbose) = map fst valid_rows"
  by (simp_all add: process_args_docx_def process_args_pdf_def split_def)

text \<open>
  C4. Let the rows be submitted with distinct row numbers and complete in any order. When
  no row ends the loop, and so in every run that is not verbose, the file list joined
  after the fan-out is the list of the files of the rows that rendered, sorted by row
  number, the row numbers strictly ascending. When some row ends the loop, no list is
  joined, in whatever order the workers complete. So two runs whose workers complete in
  different orders join the same list.
\<close>

theorem join_order_deterministic:
  assumes "distinct (map fst argss)"
    and "mset completed = mset argss" and "mset completed' = mset argss"
  shows "((\<forall>args \<in> set argss. \<not> aborts env args) \<longrightarrow>
            joined_files env verbose completed
              = Inr (map snd (sort_key fst (rendered env argss))))
    \<and> ((\<forall>args \<in> set argss. \<not> args_verbose_of args) \<longrightarrow>
            joined_files env verbose completed
              = Inr (map snd (sort_key fst (rendered env argss))))
    \<and> ((\<exists>args \<in> set argss. aborts env args) \<longrightarrow>
            (\<exists>e. joined_files env verbose completed = Inl e)
            \<and> (\<exists>e. joined_files env verbose completed' = Inl e))
    \<and> (\<forall>fs. joined_files env verbose completed' = Inr fs \<longleftrightarrow>
               joined_files env verbose completed = Inr fs)
    \<and> sorted_wrt (<) (map fst (sort_key fst (rendered env argss)))
    \<and> set (sort_key fst (rendered env argss))
         = {(k, f). \<exists>args \<in> set argss. generate_single_qr env args = Inr (k, Some f)}"
proof -
  let ?sorted = "map snd (sort_key fst (rendered env argss))"
  have a: "(\<forall>args \<in> set argss. \<not> aborts env args) \<longrightarrow>
      joined_files env verbose completed = Inr ?sorted"
    using join_any_order(2) [OF assms(2) assms(1)] by blast
  have a': "(\<forall>args \<in> set argss. \<not> aborts env args) \<longrightarrow>
      joined_files env verbose completed' = Inr ?sorted"
    using join_any_order(2) [OF assms(3) assms(1)] by blast
  have q: "(\<forall>args \<in> set argss. \<not> args_verbose_of args) \<longrightarrow>
      joined_files env verbose completed = Inr ?sorted"
    using a quiet_args_never_abort by blast
  have b: "(\<exists>args \<in> set argss. aborts env args) \<longrightarrow>
            (\<exists>e. joined_files env verbose completed = Inl e)
            \<and> (\<exists>e. joined_files env verbose completed' = Inl e)"
    using join_aborted [OF assms(2)] join_aborted [OF assms(3)] by blast
  have same: "\<forall>fs. joined_files env verbose completed' = Inr fs \<longleftrightarrow>
               joined_files env verbose completed = Inr fs"
  proof (cases "\<exists>args \<in> set argss. aborts env args")
    case True
    then obtain e e' where "joined_files env verbose completed = Inl e"
      and "joined_files env verbose completed' = Inl e'"
      using b by blast
    then show ?thesis by simp
  next
    case False
    then have "joined_files env verbose completed = Inr ?sorted"
      and "joined_files env verbose completed' = Inr ?sorted"
      using a a' by blast+
    then show ?thesis by simp
  qed
  have "sorted (map fst (sort_key fst (rendered env argss)))" by simp
  moreover have "distinct (map fst (sort_key fst (rendered env argss)))"
    using distinct_rendered [OF assms(1)] by (rule distinct_keys_sort_key)
  ultimately have c: "sorted_wrt (<) (map fst (sort_key fst (rendered env argss)))"
    by (simp add: strict_sorted_iff)
  have d: "set (sort_key fst (rendered env argss))
         = {(k, f). \<exists>args \<in> set argss. generate_single_qr env args = Inr (k, Some f)}"
  proof (rule set_eqI)
    fix kf :: "nat \<times> string"
    obtain k f where kf: "kf = (k, f)" by (cases kf)
    show "kf \<in> set (sort_key fst (rendered env argss)) \<longleftrightarrow>
        kf \<in> {(k, f). \<exists>args \<in> set argss. generate_single_qr env args = Inr (k, Some f)}"
      by (simp add: kf in_rendered)
  qed
  from a q b same c d show ?thesis by blast
qed

lemma first_fit:
  "filter P [start..<n] = v # rest \<Longrightarrow>
   start \<le> v \<and> v < n \<and> P v \<and> (\<forall>u. start \<le> u \<and> u < v \<longrightarrow> \<not> P u)"
proof (induction "n - start" arbitrary: start)
  case 0
  then show ?case by simp
next
  case (Suc d)
  then have lt: "start < n" by simp
  then have upt: "[start..<n] = start # [Suc start..<n]" by (simp add: upt_rec)
  show ?case
  proof (cases "P start")
    case True
    then have "v = start" using Suc.prems upt by simp
    then show ?thesis using True lt by auto
  next
    case False
    then have "filter P [Suc start..<n] = v # rest" using Suc.prems upt by simp
    moreover have "d = n - Suc start" using Suc.hyps(2) by simp
    ultimately have ih: "Suc start \<le> v \<and> v < n \<and> P v \<and> (\<forall>u. Suc start \<le> u \<and> u < v \<longrightarrow> \<not> P u)"
      by (rule Suc.hyps(1) [rotated])
    have "\<forall>u. start \<le> u \<and> u < v \<longrightarrow> \<not> P u"
    proof (intro allI impI)
      fix u assume u: "start \<le> u \<and> u < v"
      show "\<not> P u"
      proof (cases "u = start")
        case True
        then show ?thesis using False by simp
      next
        case False
        then have "Suc start \<le> u" using u by simp
        then show ?thesis using ih u by simp
      qed
    qed
    then show ?thesis using ih by simp
  qed
qed

lemma no_fit: "(\<forall>v. start \<le> v \<and> v < n \<longrightarrow> \<not> P v) \<Longrightarrow> filter P [start..<n] = []"
  by (simp add: filter_empty_conv)

lemma qr_make_fit:
  assumes "qr_make fits0 qr True = Inr qr'"
  shows "qr' = qr\<lparr>version := version qr'\<rparr>
    \<and> version qr \<le> version qr' \<and> version qr' \<le> 40
    \<and> fits0 (version qr') (error_correction qr) (data_list qr)
    \<and> (\<forall>u. version qr \<le> u \<and> u < version qr' \<longrightarrow> \<not> fits0 u (error_correction qr) (data_list qr))"
proof -
  let ?P = "\<lambda>v. fits0 v (error_correction qr) (data_list qr)"
  from assms obtain v rest where f: "filter ?P [version qr..<41] = v # rest"
    and q: "qr' = qr\<lparr>version := v\<rparr>"
    by (auto simp: qr_make_def qr_best_fit_def split: list.splits)
  have "version qr \<le> v \<and> v < 41 \<and> ?P v \<and> (\<forall>u. version qr \<le> u \<and> u < v \<longrightarrow> \<not> ?P u)"
    using f by (rule first_fit)
  then show ?thesis using q by simp
qed

lemma qr_make_overflow:
  assumes "\<forall>v. version qr \<le> v \<and> v \<le> 40 \<longrightarrow> \<not> fits0 v (error_correction qr) (data_list qr)"
  shows "qr_make fits0 qr True = Inl DataOverflowError"
proof -
  have "filter (\<lambda>v. fits0 v (error_correction qr) (data_list qr)) [version qr..<41] = []"
    using assms by (intro no_fit) simp
  then show ?thesis by (simp add: qr_make_def qr_best_fit_def)
qed

lemma render_symbol:
  assumes "render_labeled_image env (row_num, cell_value, w, iw, ih, tmpdirname, vb) = Inr img"
  shows "qr_make (qr_capacity env)
      (qr_add_data \<lparr>version = 1, error_correction = ERROR_CORRECT_L, box_size = 10,
                border = 4, data_list = []\<rparr> (py_str cell_value)) True
    = Inr (qr_symbol img)"
  using assms
  by (auto simp: render_labeled_image_def Let_def split: sum.splits option.splits if_splits)

lemma render_overflows:
  assumes "\<forall>v. 1 \<le> v \<and> v \<le> 40 \<longrightarrow> \<not> qr_capacity env v ERROR_CORRECT_L (py_str cell_value)"
  shows "render_labeled_image env (row_num, cell_value, w, iw, ih, tmpdirname, vb)
    = Inl DataOverflowError"
proof -
  have "qr_make (qr_capacity env)
      (qr_add_data \<lparr>version = 1, error_correction = ERROR_CORRECT_L, box_size = 10,
                border = 4, data_list = []\<rparr> (py_str cell_value)) True
    = Inl DataOverflowError"
    using assms by (intro qr_make_overflow) (simp add: qr_add_data_def)
  then show ?thesis by (simp add: render_labeled_image_def)
qed

text \<open>
  C8, as amended. Every symbol is requested with error correction L, box size 10, border
  4 and version 1, whatever the text; \<open>make(fit=True)\<close> then gives the symbol the
  smallest version from 1 to 40 that holds the text, and the level, box size and border
  stay as requested. When no version holds the text the rendering fails with
  \<open>DataOverflowError\<close> and the row gets no file, \<open>(row_num, None)\<close> in a run that is
  not verbose: nothing is tried again with other parameters.
\<close>

theorem qr_encoding_parameters:
  "(\<forall>img. render_labeled_image env (row_num, cell_value, w, iw, ih, tmpdirname, vb) = Inr img \<longrightarrow>
      error_correction (qr_symbol img) = ERROR_CORRECT_L
      \<and> box_size (qr_symbol img) = 10 \<and> border (qr_symbol img) = 4
      \<and> data_list (qr_symbol img) = py_str cell_value
      \<and> 1 \<le> version (qr_symbol img) \<and> version (qr_symbol img) \<le> 40
      \<and> qr_capacity env (version (qr_symbol img)) ERROR_CORRECT_L (py_str cell_value)
      \<and> (\<forall>v. 1 \<le> v \<and> v < version (qr_symbol img) \<longrightarrow>
            \<not> qr_capacity env v ERROR_CORRECT_L (py_str cell_value)))
   \<and> ((\<forall>v. 1 \<le> v \<and> v \<le> 40 \<longrightarrow> \<not> qr_capacity env v ERROR_CORRECT_L (py_str cell_value)) \<longrightarrow>
        render_labeled_image env (row_num, cell_value, w, iw, ih, tmpdirname, vb)
          = Inl DataOverflowError
        \<and> (\<forall>f. generate_single_qr env (row_num, cell_value, w, iw, ih, tmpdirname, vb)
                 \<noteq> Inr (row_num, Some f))
        \<and> generate_single_qr env (row_num, cell_value, w, iw, ih, tmpdirname, False)
            = Inr (row_num, None))"
proof -
  let ?qr = "qr_add_data \<lparr>version = 1, error_correction = ERROR_CORRECT_L, box_size = 10,
                border = 4, data_list = []\<rparr> (py_str cell_value)"
  have ok: "\<forall>img. render_labeled_image env (row_num, cell_value, w, iw, ih, tmpdirname, vb) = Inr img \<longrightarrow>
      error_correction (qr_symbol img) = ERROR_CORRECT_L
      \<and> box_size (qr_symbol img) = 10 \<and> border (qr_symbol img) = 4
      \<and> data_list (qr_symbol img) = py_str cell_value
      \<and> 1 \<le> version (qr_symbol img) \<and> version (qr_symbol img) \<le> 40
      \<and> qr_capacity env (version (qr_symbol img)) ERROR_CORRECT_L (py_str cell_value)
      \<and> (\<forall>v. 1 \<le> v \<and> v < version (qr_symbol img) \<longrightarrow>
            \<not> qr_capacity env v ERROR_CORRECT_L (py_str cell_value))"
  proof (intro allI impI)
    fix img
    assume r: "render_labeled_image env (row_num, cell_value, w, iw, ih, tmpdirname, vb) = Inr img"
    have m: "qr_make (qr_capacity env) ?qr True = Inr (qr_symbol img)"
      using r by (rule render_symbol)
    have qr: "version ?qr = 1" "error_correction ?qr = ERROR_CORRECT_L"
      "data_list ?qr = py_str cell_value"
      by (simp_all add: qr_add_data_def)
    note fit = qr_make_fit [OF m, unfolded qr]
    from fit have e: "qr_symbol img = ?qr\<lparr>version := version (qr_symbol img)\<rparr>" by simp
    have "error_correction (qr_symbol img) = ERROR_CORRECT_L" "box_size (qr_symbol img) = 10"
      "border (qr_symbol img) = 4" "data_list (qr_symbol img) = py_str cell_value"
      by (subst e, simp add: qr_add_data_def)+
    then show "error_correction (qr_symbol img) = ERROR_CORRECT_L
      \<and> box_size (qr_symbol img) = 10 \<and> border (qr_symbol img) = 4
      \<and> data_list (qr_symbol img) = py_str cell_value
      \<and> 1 \<le> version (qr_symbol img) \<and> version (qr_symbol img) \<le> 40
      \<and> qr_capacity env (version (qr_symbol img)) ERROR_CORRECT_L (py_str cell_value)
      \<and> (\<forall>v. 1 \<le> v \<and> v < version (qr_symbol img) \<longrightarrow>
            \<not> qr_capacity env v ERROR_CORRECT_L (py_str cell_value))"
      using fit by simp
  qed
  have fail: "(\<forall>v. 1 \<le> v \<and> v \<le> 40 \<longrightarrow> \<not> qr_capacity env v ERROR_CORRECT_L (py_str cell_value)) \<longrightarrow>
        render_labeled_image env (row_num, cell_value, w, iw, ih, tmpdirname, vb)
          = Inl DataOverflowError
        \<and> (\<forall>f. generate_single_qr env (row_num, cell_value, w, iw, ih, tmpdirname, vb)
                 \<noteq> Inr (row_num, Some f))
        \<and> generate_single_qr env (row_num, cell_value, w, iw, ih, tmpdirname, False)
            = Inr (row_num, None)"
  proof
    assume none: "\<forall>v. 1 \<le> v \<and> v \<le> 40 \<longrightarrow> \<not> qr_capacity env v ERROR_CORRECT_L (py_str cell_value)"
    have r: "render_labeled_image env (row_num, cell_value, w, iw, ih, tmpdirname, vb)
        = Inl DataOverflowError"
      using none by (rule render_overflows)
    have r': "render_labeled_image env (row_num, cell_value, w, iw, ih, tmpdirname, False)
        = Inl DataOverflowError"
      using none by (rule render_overflows)
    have nofile: "\<forall>f. generate_single_qr env (row_num, cell_value, w, iw, ih, tmpdirname, vb)
                 \<noteq> Inr (row_num, Some f)"
    proof (intro allI notI)
      fix f
      assume "generate_single_qr env (row_num, cell_value, w, iw, ih, tmpdirname, vb)
          = Inr (row_num, Some f)"
      then obtain img where
        "render_labeled_image env (row_num, cell_value, w, iw, ih, tmpdirname, vb) = Inr img"
        using generate_single_qr_result(2) by blast
      then show False using r by simp
    qed
    have "generate_single_qr env (row_num, cell_value, w, iw, ih, tmpdirname, False)
        = Inr (row_num, None)"
      using r' by (simp add: generate_single_qr_quiet)
    with r nofile show "render_labeled_image env (row_num, cell_value, w, iw, ih, tmpdirname, vb)
          = Inl DataOverflowError
        \<and> (\<forall>f. generate_single_qr env (row_num, cell_value, w, iw, ih, tmpdirname, vb)
                 \<noteq> Inr (row_num, Some f))
        \<and> generate_single_qr env (row_num, cell_value, w, iw, ih, tmpdirname, False)
            = Inr (row_num, None)"
      by blast
  qed
  from ok fail show ?thesis by (rule conjI)
qed

lemma data_codewords_L_max: "i < 40 \<Longrightarrow> data_codewords_L ! i \<le> 2956"
proof -
  have "\<forall>c \<in> set data_codewords_L. c \<le> 2956"
    by (simp add: data_codewords_L_def)
  moreover have "length data_codewords_L = 40"
    by (simp add: data_codewords_L_def)
  ultimately show "i < 40 \<Longrightarrow> data_codewords_L ! i \<le> 2956"
    by (metis nth_mem)
qed

lemma byte_mode_overflow: "2954 < length text \<Longrightarrow> \<not> byte_mode_fits v ec text"
proof
  assume long: "2954 < length text" and fits: "byte_mode_fits v ec text"
  then have v: "1 \<le> v" "v \<le> 40"
    and cap: "4 + (if v \<le> 9 then 8 else 16) + 8 * length text \<le> 8 * (data_codewords_L ! (v - 1))"
    by (simp_all add: byte_mode_fits_def)
  have "data_codewords_L ! (v - 1) \<le> 2956"
    using v by (intro data_codewords_L_max) simp
  then show False using cap long by (simp split: if_splits)
qed

lemma byte_mode_18:
  "\<not> byte_mode_fits 1 ERROR_CORRECT_L ''abcdefghijklmnopqr''"
  "byte_mode_fits 2 ERROR_CORRECT_L ''abcdefghijklmnopqr''"
  by (simp_all add: byte_mode_fits_def data_codewords_L_def)

lemma second_fit: "\<not> P 1 \<Longrightarrow> P 2 \<Longrightarrow> filter P [1..<41] = 2 # filter P [3..<41]"
proof -
  assume a: "\<not> P 1" "P 2"
  have "[1..<41] = 1 # 2 # [3..<41]"
    by (simp add: upt_rec)
  then show ?thesis using a by simp
qed

lemma first_fit_at_start: "P 1 \<Longrightarrow> filter P [1..<41] = 1 # filter P [2..<41]"
proof -
  assume a: "P 1"
  have "[1..<41] = 1 # [2..<41]"
    by (simp add: upt_rec)
  then show ?thesis using a by simp
qed

lemma str_nat_digit: "n < 10 \<Longrightarrow> str_nat n = [''0123456789'' ! n]"
  by (simp add: str_nat.simps)

lemma render_short_text:
  assumes "length (py_str cell_value) \<le> 17"
  shows "render_labeled_image qrcode_env (row_num, cell_value, w, iw, ih, tmpdirname, False)
   = Inr \<lparr>image_width = 1000, image_height = 1200, caption = py_str cell_value,
          caption_font_size = font_size (py_str cell_value), caption_height = 240,
          qr_symbol = \<lparr>version = 1, error_correction = ERROR_CORRECT_L, box_size = 10,
                        border = 4, data_list = py_str cell_value\<rparr>,
          saved_as = path_join tmpdirname (''temp_qr_'' @ str_nat row_num @ ''.png'')\<rparr>"
proof -
  let ?P = "\<lambda>v. byte_mode_fits v ERROR_CORRECT_L (py_str cell_value)"
  have "?P 1"
    using assms by (simp add: byte_mode_fits_def data_codewords_L_def)
  then have "filter ?P [1..<41] = 1 # filter ?P [2..<41]"
    by (rule first_fit_at_start)
  then have "qr_make byte_mode_fits
      \<lparr>version = 1, error_correction = ERROR_CORRECT_L, box_size = 10, border = 4,
        data_list = py_str cell_value\<rparr> True
    = Inr \<lparr>version = 1, error_correction = ERROR_CORRECT_L, box_size = 10, border = 4,
        data_list = py_str cell_value\<rparr>"
    by (simp add: qr_make_def qr_best_fit_def)
  then show ?thesis
    by (simp add: render_labeled_image_def qrcode_env_def qr_add_data_def base_width_def
        base_height_value text_height_value Let_def)
qed

lemma render_too_long:
  assumes "2954 < length (py_str cell_value)"
  shows "render_labeled_image qrcode_env (row_num, cell_value, w, iw, ih, tmpdirname, vb)
   = Inl DataOverflowError"
  using assms by (intro render_overflows) (simp add: qrcode_env_def byte_mode_overflow)

lemma render_18_bytes:
  "render_labeled_image qrcode_env
     (0, CStr ''abcdefghijklmnopqr'', 1000, 1000, 1200, ''/tmp/qr'', False)
   = Inr \<lparr>image_width = 1000, image_height = 1200, caption = ''abcdefghijklmnopqr'',
          caption_font_size = 55, caption_height = 240,
          qr_symbol = \<lparr>version = 2, error_correction = ERROR_CORRECT_L, box_size = 10,
                        border = 4, data_list = ''abcdefghijklmnopqr''\<rparr>,
          saved_as = ''/tmp/qr/temp_qr_0.png''\<rparr>"
proof -
  have "filter (\<lambda>v. byte_mode_fits v ERROR_CORRECT_L ''abcdefghijklmnopqr'') [1..<41]
      = 2 # filter (\<lambda>v. byte_mode_fits v ERROR_CORRECT_L ''abcdefghijklmnopqr'') [3..<41]"
    using byte_mode_18 by (intro second_fit)
  then have "qr_make byte_mode_fits
      \<lparr>version = 1, error_correction = ERROR_CORRECT_L, box_size = 10, border = 4,
        data_list = ''abcdefghijklmnopqr''\<rparr> True
    = Inr \<lparr>version = 2, error_correction = ERROR_CORRECT_L, box_size = 10, border = 4,
        data_list = ''abcdefghijklmnopqr''\<rparr>"
    by (simp add: qr_make_def qr_best_fit_def)
  moreover have "font_size ''abcdefghijklmnopqr'' = 55"
    by (simp add: font_size_quotient)
  moreover have "str_nat 0 = ''0''"
    by (simp add: str_nat.simps)
  ultimately show ?thesis
    by (simp add: render_labeled_image_def qrcode_env_def qr_add_data_def base_width_def
        base_height_value text_height_value path_join_def Let_def)
qed

lemma rendered_three_rows:
  "rendered qrcode_env
     (process_args_pdf
        [(0, CStr ''alpha''), (1, CStr (replicate 3000 (CHR ''x''))), (2, CInt 42)]
        ''/tmp/qr'' False)
   = [(0, ''/tmp/qr/temp_qr_0.png''), (2, ''/tmp/qr/temp_qr_2.png'')]"
proof -
  have "str_nat 42 = ''42''" and "str_nat 0 = ''0''" and "str_nat 2 = ''2''"
    by (simp_all add: str_nat.simps)
  then show ?thesis
    by (simp add: rendered_def row_file_def process_args_pdf_def generate_single_qr_quiet
        render_short_text render_too_long path_join_def)
qed

text \<open>
  C8 as stated fails: a text of 18 bytes does not fit version 1 at level L (17 bytes in
  byte mode), and the symbol made for it has version 2.
\<close>

theorem qr_version_not_fixed:
  "map_sum id (\<lambda>img. version (qr_symbol img))
     (render_labeled_image qrcode_env
        (0, CStr ''abcdefghijklmnopqr'', 1000, 1000, 1200, ''/tmp/qr'', False))
   = Inr 2"
  by (simp add: render_18_bytes)

theorem qr_encoding_parameters_witness:
  "generate_single_qr qrcode_env
     (1, CStr (replicate 3000 (CHR ''x'')), 1000, 1000, 1200, ''/tmp/qr'', False)
     = Inr (1, None)
   \<and> map_sum id (\<lambda>img. (error_correction (qr_symbol img), box_size (qr_symbol img),
                          border (qr_symbol img)))
       (render_labeled_image qrcode_env
          (0, CStr ''abcdefghijklmnopqr'', 1000, 1000, 1200, ''/tmp/qr'', False))
     = Inr (ERROR_CORRECT_L, 10, 4)"
proof -
  have "\<forall>v. 1 \<le> v \<and> v \<le> 40 \<longrightarrow>
      \<not> qr_capacity qrcode_env v ERROR_CORRECT_L (py_str (CStr (replicate 3000 (CHR ''x''))))"
    by (simp add: qrcode_env_def byte_mode_overflow)
  with qr_encoding_parameters [where env = qrcode_env and row_num = 1
      and cell_value = "CStr (replicate 3000 (CHR ''x''))" and w = 1000 and iw = 1000
      and ih = 1200 and tmpdirname = "''/tmp/qr''" and vb = False]
  have a: "generate_single_qr qrcode_env
     (1, CStr (replicate 3000 (CHR ''x'')), 1000, 1000, 1200, ''/tmp/qr'', False)
     = Inr (1, None)"
    by blast
  obtain img where r: "render_labeled_image qrcode_env
          (0, CStr ''abcdefghijklmnopqr'', 1000, 1000, 1200, ''/tmp/qr'', False) = Inr img"
    using render_18_bytes by blast
  with qr_encoding_parameters [where env = qrcode_env and row_num = 0
      and cell_value = "CStr ''abcdefghijklmnopqr''" and w = 1000 and iw = 1000
      and ih = 1200 and tmpdirname = "''/tmp/qr''" and vb = False]
  have "error_correction (qr_symbol img) = ERROR_CORRECT_L
      \<and> box_size (qr_symbol img) = 10 \<and> border (qr_symbol img) = 4"
    by blast
  then show ?thesis using a r by simp
qed

lemma three_rows_quiet:
  "\<forall>args \<in> set (process_args_pdf
        [(0, CStr ''alpha''), (1, CStr (replicate 3000 (CHR ''x''))), (2, CInt 42)]
        ''/tmp/qr'' False). \<not> aborts qrcode_env args"
  by (simp add: process_args_pdf_def quiet_never_aborts)

text \<open>
  C5 at a failing input. For three rows the progress task of a run that is not verbose is
  created with a total of 3. The row whose text is too long for any symbol completes with
  \<open>(1, None)\<close>, and at the end of the fan-out \<open>progress.advance(task)\<close> has been
  called twice: no signal is emitted for the failed row, and the count stays short of the
  total of the task.
\<close>

theorem progress_skips_failed_row:
  "task_total [(0, CStr ''alpha''), (1, CStr (replicate 3000 (CHR ''x''))), (2, CInt 42)] = 3
   \<and> generate_single_qr qrcode_env
       (1, CStr (replicate 3000 (CHR ''x'')), 1000, 1000, 1200, ''/tmp/qr'', False)
     = Inr (1, None)
   \<and> map_sum id advanced
       (fan_out qrcode_env False
          (process_args_pdf
             [(0, CStr ''alpha''), (1, CStr (replicate 3000 (CHR ''x''))), (2, CInt 42)]
             ''/tmp/qr'' False))
     = Inr 2"
proof -
  have "generate_single_qr qrcode_env
       (1, CStr (replicate 3000 (CHR ''x'')), 1000, 1000, 1200, ''/tmp/qr'', False)
     = Inr (1, None)"
    by (simp add: generate_single_qr_quiet render_too_long)
  moreover have "map_sum id advanced
       (fan_out qrcode_env False
          (process_args_pdf
             [(0, CStr ''alpha''), (1, CStr (replicate 3000 (CHR ''x''))), (2, CInt 42)]
             ''/tmp/qr'' False))
     = Inr 2"
    unfolding fan_out_ok [OF three_rows_quiet] rendered_three_rows by simp
  ultimately show ?thesis by (simp add: task_total_def)
qed

theorem join_order_deterministic_witness:
  "joined_files qrcode_env False
       [(2, CInt 42, 1000, 1000, 1200, ''/tmp/qr'', False),
        (0, CStr ''alpha'', 1000, 1000, 1200, ''/tmp/qr'', False),
        (1, CStr (replicate 3000 (CHR ''x'')), 1000, 1000, 1200, ''/tmp/qr'', False)]
     = Inr [''/tmp/qr/temp_qr_0.png'', ''/tmp/qr/temp_qr_2.png'']
   \<and> joined_files qrcode_env False
       [(1, CStr (replicate 3000 (CHR ''x'')), 1000, 1000, 1200, ''/tmp/qr'', False),
        (2, CInt 42, 1000, 1000, 1200, ''/tmp/qr'', False),
        (0, CStr ''alpha'', 1000, 1000, 1200, ''/tmp/qr'', False)]
     = Inr [''/tmp/qr/temp_qr_0.png'', ''/tmp/qr/temp_qr_2.png'']"
proof -
  let ?a0 = "(0::nat, CStr ''alpha'', 1000::rat, 1000::int, 1200::int, ''/tmp/qr'', False)"
  let ?a1 = "(1::nat, CStr (replicate 3000 (CHR ''x'')), 1000::rat, 1000::int, 1200::int, ''/tmp/qr'', False)"
  let ?a2 = "(2::nat, CInt 42, 1000::rat, 1000::int, 1200::int, ''/tmp/qr'', False)"
  have args: "process_args_pdf
        [(0, CStr ''alpha''), (1, CStr (replicate 3000 (CHR ''x''))), (2, CInt 42)]
        ''/tmp/qr'' False = [?a0, ?a1, ?a2]"
    by (simp add: process_args_pdf_def)
  have d: "distinct (map fst [?a0, ?a1, ?a2])" by simp
  have p: "mset [?a2, ?a0, ?a1] = mset [?a0, ?a1, ?a2]" by simp
  have p': "mset [?a1, ?a2, ?a0] = mset [?a0, ?a1, ?a2]" by simp
  have q: "\<forall>args \<in> set [?a0, ?a1, ?a2]. \<not> aborts qrcode_env args"
    using three_rows_quiet unfolding args .
  have files: "map snd (sort_key fst (rendered qrcode_env [?a0, ?a1, ?a2]))
      = [''/tmp/qr/temp_qr_0.png'', ''/tmp/qr/temp_qr_2.png'']"
    using rendered_three_rows unfolding args by simp
  note inst = join_order_deterministic [OF d p p', of qrcode_env False]
  from inst q have "joined_files qrcode_env False [?a2, ?a0, ?a1]
      = Inr (map snd (sort_key fst (rendered qrcode_env [?a0, ?a1, ?a2])))"
    by blast
  then have a: "joined_files qrcode_env False [?a2, ?a0, ?a1]
      = Inr [''/tmp/qr/temp_qr_0.png'', ''/tmp/qr/temp_qr_2.png'']"
    by (simp only: files)
  from inst have "\<forall>fs. joined_files qrcode_env False [?a1, ?a2, ?a0] = Inr fs \<longleftrightarrow>
      joined_files qrcode_env False [?a2, ?a0, ?a1] = Inr fs"
    by blast
  then have b: "joined_files qrcode_env False [?a1, ?a2, ?a0]
      = Inr [''/tmp/qr/temp_qr_0.png'', ''/tmp/qr/temp_qr_2.png'']"
    using a by blast
  from a b show ?thesis by (intro conjI)
qed

lemma markup_row_raises:
  "generate_single_qr qrcode_env (1, CStr ''[/x]'', 1000, 1000, 1200, ''/tmp/qr'', True)
   = Inl (MarkupError (''closing tag '' @ [CHR 0x27] @ ''[/x]'' @ [CHR 0x27]
            @ '' does not match any open tag''))"
  by (simp add: generate_single_qr_def console_print_def qrcode_env_def closing_tag_x_def
      str_nat_digit)

text \<open>
  C3 at a failing input. In a verbose run a cell holding \<open>[/x]\<close> makes the
  \<open>console.print\<close> of line 44, which stands before the \<open>try\<close>, raise
  \<open>MarkupError\<close>: \<open>generate_single_qr\<close> raises instead of returning \<open>(1, None)\<close>.
  The handler of the collecting loop prints the message of the error, which holds the same
  tag and raises again, and the fan-out ends with the error: no file list is joined and
  the other row is lost with it. In a run that is not verbose the same two rows both
  render.
\<close>

theorem markup_row_aborts_run:
  "generate_single_qr qrcode_env (1, CStr ''[/x]'', 1000, 1000, 1200, ''/tmp/qr'', True)
     = Inl (MarkupError (''closing tag '' @ [CHR 0x27] @ ''[/x]'' @ [CHR 0x27]
              @ '' does not match any open tag''))
   \<and> fan_out qrcode_env True
       [(1, CStr ''[/x]'', 1000, 1000, 1200, ''/tmp/qr'', True),
        (0, CStr ''alpha'', 1000, 1000, 1200, ''/tmp/qr'', True)]
     = Inl (MarkupError (''closing tag '' @ [CHR 0x27] @ ''[/x]'' @ [CHR 0x27]
              @ '' does not match any open tag''))
   \<and> joined_files qrcode_env False
       [(1, CStr ''[/x]'', 1000, 1000, 1200, ''/tmp/qr'', False),
        (0, CStr ''alpha'', 1000, 1000, 1200, ''/tmp/qr'', False)]
     = Inr [''/tmp/qr/temp_qr_0.png'', ''/tmp/qr/temp_qr_1.png'']"
proof -
  have n: "str_nat 2 = ''2''" "str_nat 0 = ''0''" "str_nat 1 = ''1''"
    by (simp_all add: str_nat.simps)
  have loud: "fan_out qrcode_env True
       [(1, CStr ''[/x]'', 1000, 1000, 1200, ''/tmp/qr'', True),
        (0, CStr ''alpha'', 1000, 1000, 1200, ''/tmp/qr'', True)]
     = Inl (MarkupError (''closing tag '' @ [CHR 0x27] @ ''[/x]'' @ [CHR 0x27]
              @ '' does not match any open tag''))"
    unfolding fan_out_def list.map markup_row_raises
    by (simp add: collect_result_def loop_error_text_def console_print_def qrcode_env_def
        closing_tag_x_def str_nat_digit)
  let ?b1 = "(1::nat, CStr ''[/x]'', 1000::rat, 1000::int, 1200::int, ''/tmp/qr'', False)"
  let ?b0 = "(0::nat, CStr ''alpha'', 1000::rat, 1000::int, 1200::int, ''/tmp/qr'', False)"
  have q: "\<forall>args \<in> set [?b1, ?b0]. \<not> aborts qrcode_env args"
    by (simp add: quiet_never_aborts)
  have "rendered qrcode_env [?b1, ?b0]
      = [(1, ''/tmp/qr/temp_qr_1.png''), (0, ''/tmp/qr/temp_qr_0.png'')]"
    using n
    by (simp add: rendered_def row_file_def generate_single_qr_quiet render_short_text
        path_join_def)
  then have quiet: "joined_files qrcode_env False [?b1, ?b0]
      = Inr [''/tmp/qr/temp_qr_0.png'', ''/tmp/qr/temp_qr_1.png'']"
    using join_any_order(2) [of "[?b1, ?b0]" "[?b1, ?b0]" qrcode_env False] q by simp
  from markup_row_raises loud quiet show ?thesis by (intro conjI)
qed

section \<open>PDF cell sizing\<close>

text \<open>
  The two floats of the source, \<open>qr_width_double\<close> and \<open>qr_height_double\<close>, evaluated
  for 1 to 10 columns, the range the script documents and prompts for, and the exact
  quotient and product beside them.
\<close>

lemma qr_width_double_values:
  "qr_width_double 1 = 468"
  "qr_width_double 2 = 234"
  "qr_width_double 3 = 156"
  "qr_width_double 4 = 117"
  "qr_width_double 5 = 3293257227514675 / 35184372088832"
  "qr_width_double 6 = 78"
  "qr_width_double 7 = 2352326591081911 / 35184372088832"
  "qr_width_double 8 = 117 / 2"
  "qr_width_double 9 = 52"
  "qr_width_double 10 = 3293257227514675 / 70368744177664"
  by (simp_all add: qr_width_double_def usable_width_def LETTER_WIDTH_def margin_def double_eval)

lemma qr_height_double_values:
  "qr_height_double 1 = 4939885841272013 / 8796093022208"
  "qr_height_double 2 = 4939885841272013 / 17592186044416"
  "qr_height_double 3 = 3293257227514675 / 17592186044416"
  "qr_height_double 4 = 4939885841272013 / 35184372088832"
  "qr_height_double 5 = 1975954336508805 / 17592186044416"
  "qr_height_double 6 = 3293257227514675 / 35184372088832"
  "qr_height_double 7 = 2822791909298293 / 35184372088832"
  "qr_height_double 8 = 4939885841272013 / 70368744177664"
  "qr_height_double 9 = 8782019273372467 / 140737488355328"
  "qr_height_double 10 = 1975954336508805 / 35184372088832"
  unfolding qr_height_double_def qr_width_double_values float_1_2_value
  by (simp_all add: double_eval)

lemma qr_width_values:
  "qr_width 1 = 468"
  "qr_width 2 = 234"
  "qr_width 3 = 156"
  "qr_width 4 = 117"
  "qr_width 5 = 468 / 5"
  "qr_width 6 = 78"
  "qr_width 7 = 468 / 7"
  "qr_width 8 = 117 / 2"
  "qr_width 9 = 52"
  "qr_width 10 = 234 / 5"
  by (simp_all add: qr_width_def usable_width_def LETTER_WIDTH_def margin_def)

lemma qr_height_values:
  "qr_height 1 = 2808 / 5"
  "qr_height 2 = 1404 / 5"
  "qr_height 3 = 936 / 5"
  "qr_height 4 = 702 / 5"
  "qr_height 5 = 2808 / 25"
  "qr_height 6 = 468 / 5"
  "qr_height 7 = 2808 / 35"
  "qr_height 8 = 351 / 5"
  "qr_height 9 = 312 / 5"
  "qr_height 10 = 1404 / 25"
  unfolding qr_height_def qr_width_values
  by simp_all

lemma columns_1_to_10:
  fixes wide :: nat
  assumes "1 \<le> wide" and "wide \<le> 10"
  shows "wide = 1 \<or> wide = 2 \<or> wide = 3 \<or> wide = 4 \<or> wide = 5
       \<or> wide = 6 \<or> wide = 7 \<or> wide = 8 \<or> wide = 9 \<or> wide = 10"
  using assms by arith

lemma qr_width_double_error_at:
  "\<bar>qr_width_double 1 - qr_width 1\<bar> \<le> qr_width 1 / 2 ^ 53"
  "\<bar>qr_width_double 2 - qr_width 2\<bar> \<le> qr_width 2 / 2 ^ 53"
  "\<bar>qr_width_double 3 - qr_width 3\<bar> \<le> qr_width 3 / 2 ^ 53"
  "\<bar>qr_width_double 4 - qr_width 4\<bar> \<le> qr_width 4 / 2 ^ 53"
  "\<bar>qr_width_double 5 - qr_width 5\<bar> \<le> qr_width 5 / 2 ^ 53"
  "\<bar>qr_width_double 6 - qr_width 6\<bar> \<le> qr_width 6 / 2 ^ 53"
  "\<bar>qr_width_double 7 - qr_width 7\<bar> \<le> qr_width 7 / 2 ^ 53"
  "\<bar>qr_width_double 8 - qr_width 8\<bar> \<le> qr_width 8 / 2 ^ 53"
  "\<bar>qr_width_double 9 - qr_width 9\<bar> \<le> qr_width 9 / 2 ^ 53"
  "\<bar>qr_width_double 10 - qr_width 10\<bar> \<le> qr_width 10 / 2 ^ 53"
  unfolding qr_width_double_values qr_width_values
  by simp_all

lemma qr_height_double_product_at:
  "\<bar>qr_height_double 1 - (12 / 10) * qr_width_double 1\<bar> \<le> (12 / 10) * qr_width_double 1 / 2 ^ 53"
  "\<bar>qr_height_double 2 - (12 / 10) * qr_width_double 2\<bar> \<le> (12 / 10) * qr_width_double 2 / 2 ^ 53"
  "\<bar>qr_height_double 3 - (12 / 10) * qr_width_double 3\<bar> \<le> (12 / 10) * qr_width_double 3 / 2 ^ 53"
  "\<bar>qr_height_double 4 - (12 / 10) * qr_width_double 4\<bar> \<le> (12 / 10) * qr_width_double 4 / 2 ^ 53"
  "\<bar>qr_height_double 5 - (12 / 10) * qr_width_double 5\<bar> \<le> (12 / 10) * qr_width_double 5 / 2 ^ 53"
  "\<bar>qr_height_double 6 - (12 / 10) * qr_width_double 6\<bar> \<le> (12 / 10) * qr_width_double 6 / 2 ^ 53"
  "\<bar>qr_height_double 7 - (12 / 10) * qr_width_double 7\<bar> \<le> (12 / 10) * qr_width_double 7 / 2 ^ 53"
  "\<bar>qr_height_double 8 - (12 / 10) * qr_width_double 8\<bar> \<le> (12 / 10) * qr_width_double 8 / 2 ^ 53"
  "\<bar>qr_height_double 9 - (12 / 10) * qr_width_double 9\<bar> \<le> (12 / 10) * qr_width_double 9 / 2 ^ 53"
  "\<bar>qr_height_double 10 - (12 / 10) * qr_width_double 10\<bar> \<le> (12 / 10) * qr_width_double 10 / 2 ^ 53"
  unfolding qr_height_double_values qr_width_double_values
  by simp_all

lemma qr_height_double_error_at:
  "\<bar>qr_height_double 1 - qr_height 1\<bar> \<le> qr_height 1 / 2 ^ 53"
  "\<bar>qr_height_double 2 - qr_height 2\<bar> \<le> qr_height 2 / 2 ^ 53"
  "\<bar>qr_height_double 3 - qr_height 3\<bar> \<le> qr_height 3 / 2 ^ 53"
  "\<bar>qr_height_double 4 - qr_height 4\<bar> \<le> qr_height 4 / 2 ^ 53"
  "\<bar>qr_height_double 5 - qr_height 5\<bar> \<le> qr_height 5 / 2 ^ 53"
  "\<bar>qr_height_double 6 - qr_height 6\<bar> \<le> qr_height 6 / 2 ^ 53"
  "\<bar>qr_height_double 7 - qr_height 7\<bar> \<le> qr_height 7 / 2 ^ 53"
  "\<bar>qr_height_double 8 - qr_height 8\<bar> \<le> qr_height 8 / 2 ^ 53"
  "\<bar>qr_height_double 9 - qr_height 9\<bar> \<le> qr_height 9 / 2 ^ 53"
  "\<bar>qr_height_double 10 - qr_height 10\<bar> \<le> qr_height 10 / 2 ^ 53"
  unfolding qr_height_double_values qr_height_values
  by simp_all

lemma scale_factors_at:
  "\<bar>qr_height_double 1 / 1200 - qr_width_double 1 / 1000\<bar> \<le> (qr_width_double 1 / 1000) / 2 ^ 53"
  "\<bar>qr_height_double 2 / 1200 - qr_width_double 2 / 1000\<bar> \<le> (qr_width_double 2 / 1000) / 2 ^ 53"
  "\<bar>qr_height_double 3 / 1200 - qr_width_double 3 / 1000\<bar> \<le> (qr_width_double 3 / 1000) / 2 ^ 53"
  "\<bar>qr_height_double 4 / 1200 - qr_width_double 4 / 1000\<bar> \<le> (qr_width_double 4 / 1000) / 2 ^ 53"
  "\<bar>qr_height_double 5 / 1200 - qr_width_double 5 / 1000\<bar> \<le> (qr_width_double 5 / 1000) / 2 ^ 53"
  "\<bar>qr_height_double 6 / 1200 - qr_width_double 6 / 1000\<bar> \<le> (qr_width_double 6 / 1000) / 2 ^ 53"
  "\<bar>qr_height_double 7 / 1200 - qr_width_double 7 / 1000\<bar> \<le> (qr_width_double 7 / 1000) / 2 ^ 53"
  "\<bar>qr_height_double 8 / 1200 - qr_width_double 8 / 1000\<bar> \<le> (qr_width_double 8 / 1000) / 2 ^ 53"
  "\<bar>qr_height_double 9 / 1200 - qr_width_double 9 / 1000\<bar> \<le> (qr_width_double 9 / 1000) / 2 ^ 53"
  "\<bar>qr_height_double 10 / 1200 - qr_width_double 10 / 1000\<bar> \<le> (qr_width_double 10 / 1000) / 2 ^ 53"
  unfolding qr_height_double_values qr_width_double_values
  by simp_all

lemma exact_product_at:
  "(qr_height_double 1 = (12 / 10) * qr_width_double 1) = False"
  "(qr_height_double 2 = (12 / 10) * qr_width_double 2) = False"
  "(qr_height_double 3 = (12 / 10) * qr_width_double 3) = False"
  "(qr_height_double 4 = (12 / 10) * qr_width_double 4) = False"
  "(qr_height_double 5 = (12 / 10) * qr_width_double 5) = True"
  "(qr_height_double 6 = (12 / 10) * qr_width_double 6) = False"
  "(qr_height_double 7 = (12 / 10) * qr_width_double 7) = False"
  "(qr_height_double 8 = (12 / 10) * qr_width_double 8) = False"
  "(qr_height_double 9 = (12 / 10) * qr_width_double 9) = False"
  "(qr_height_double 10 = (12 / 10) * qr_width_double 10) = True"
  unfolding qr_height_double_values qr_width_double_values
  by simp_all

lemma qr_width_double_error:
  assumes "1 \<le> wide" and "wide \<le> 10"
  shows "\<bar>qr_width_double wide - qr_width wide\<bar> \<le> qr_width wide / 2 ^ 53"
  using columns_1_to_10 [OF assms] qr_width_double_error_at
  by (elim disjE) (simp_all only:)

lemma qr_height_double_product:
  assumes "1 \<le> wide" and "wide \<le> 10"
  shows "\<bar>qr_height_double wide - (12 / 10) * qr_width_double wide\<bar>
           \<le> (12 / 10) * qr_width_double wide / 2 ^ 53"
  using columns_1_to_10 [OF assms] qr_height_double_product_at
  by (elim disjE) (simp_all only:)

lemma qr_height_double_error:
  assumes "1 \<le> wide" and "wide \<le> 10"
  shows "\<bar>qr_height_double wide - qr_height wide\<bar> \<le> qr_height wide / 2 ^ 53"
  using columns_1_to_10 [OF assms] qr_height_double_error_at
  by (elim disjE) (simp_all only:)

lemma scale_factors:
  assumes "1 \<le> wide" and "wide \<le> 10"
  shows "\<bar>qr_height_double wide / 1200 - qr_width_double wide / 1000\<bar>
           \<le> (qr_width_double wide / 1000) / 2 ^ 53"
  using columns_1_to_10 [OF assms] scale_factors_at
  by (elim disjE) (simp_all only:)

lemma exact_product:
  assumes "1 \<le> wide" and "wide \<le> 10"
  shows "qr_height_double wide = (12 / 10) * qr_width_double wide \<longleftrightarrow> wide = 5 \<or> wide = 10"
  using columns_1_to_10 [OF assms] exact_product_at
  by (elim disjE) simp_all

lemma render_image_1000_by_1200:
  assumes "render_labeled_image env args = Inr img"
  shows "image_width img = 1000 \<and> image_height img = 1200"
  using render_image_size [OF assms] by (simp add: base_width_def base_height_value)

lemma cells_of_generate_pdf:
  "set (cell_sizes (snd (generate_pdf drawable qr_files wide)))
   \<subseteq> {(qr_width wide, qr_height wide)}"
  using cell_sizes_pdf_loop [of drawable wide "pdf_start wide" qr_files]
  by (simp add: generate_pdf_def pdf_start_def)

text \<open>
  C9, as amended. For every number of columns from 1 to 10: the margin is one inch, 72
  points; the cell width is the float nearest to the usable page width (the page width
  less two margins) divided by the columns, within a relative error of \<open>2 ^ -53\<close> of that
  quotient; the cell height is the float nearest to the product of the cell width and the
  float \<open>1.2\<close>, within a relative error of \<open>2 ^ -53\<close> of 1.2 times the cell width, and
  equal to it for 5 and for 10 columns only. Every labeled image the renderer returns is
  1000 wide and 1200 high, so its height is exactly 1.2 times its width, and the two scale
  factors of an aspect-preserving fit, cell width over image width and cell height over
  image height, agree within a relative error of \<open>2 ^ -53\<close>. In the layout of
  \<open>generate_pdf\<close> every image is drawn into a cell of the exact size \<open>qr_width\<close> by
  \<open>qr_height\<close>, from which the two floats differ by a relative error of at most
  \<open>2 ^ -53\<close>.
\<close>

theorem pdf_cell_sizing:
  assumes "1 \<le> wide" and "wide \<le> 10"
  shows "margin = 72
    \<and> qr_width_double wide = double ((LETTER_WIDTH - 2 * 72) / of_nat wide)
    \<and> \<bar>qr_width_double wide - (LETTER_WIDTH - 2 * 72) / of_nat wide\<bar>
        \<le> ((LETTER_WIDTH - 2 * 72) / of_nat wide) / 2 ^ 53
    \<and> qr_height_double wide = double (qr_width_double wide * double (12 / 10))
    \<and> \<bar>qr_height_double wide - (12 / 10) * qr_width_double wide\<bar>
        \<le> (12 / 10) * qr_width_double wide / 2 ^ 53
    \<and> (qr_height_double wide = (12 / 10) * qr_width_double wide \<longleftrightarrow> wide = 5 \<or> wide = 10)
    \<and> (\<forall>env args img. render_labeled_image env args = Inr img \<longrightarrow>
          image_width img = 1000 \<and> image_height img = 1200
          \<and> (of_int (image_height img) :: rat) = (12 / 10) * of_int (image_width img))
    \<and> \<bar>qr_height_double wide / 1200 - qr_width_double wide / 1000\<bar>
        \<le> (qr_width_double wide / 1000) / 2 ^ 53
    \<and> set (cell_sizes (snd (generate_pdf drawable qr_files wide)))
        \<subseteq> {(qr_width wide, qr_height wide)}
    \<and> \<bar>qr_width_double wide - qr_width wide\<bar> \<le> qr_width wide / 2 ^ 53
    \<and> \<bar>qr_height_double wide - qr_height wide\<bar> \<le> qr_height wide / 2 ^ 53"
proof -
  have quotient: "qr_width wide = (LETTER_WIDTH - 2 * 72) / of_nat wide"
    by (simp add: qr_width_def usable_width_def margin_def)
  have width: "qr_width_double wide = double ((LETTER_WIDTH - 2 * 72) / of_nat wide)"
    by (simp add: qr_width_double_def usable_width_def margin_def)
  have width_error: "\<bar>qr_width_double wide - qr_width wide\<bar> \<le> qr_width wide / 2 ^ 53"
    using assms by (rule qr_width_double_error)
  have height: "qr_height_double wide = double (qr_width_double wide * double (12 / 10))"
    by (simp add: qr_height_double_def float_1_2_def)
  have product: "\<bar>qr_height_double wide - (12 / 10) * qr_width_double wide\<bar>
      \<le> (12 / 10) * qr_width_double wide / 2 ^ 53"
    using assms by (rule qr_height_double_product)
  have exact: "qr_height_double wide = (12 / 10) * qr_width_double wide \<longleftrightarrow> wide = 5 \<or> wide = 10"
    using assms by (rule exact_product)
  have image: "\<forall>env args img. render_labeled_image env args = Inr img \<longrightarrow>
      image_width img = 1000 \<and> image_height img = 1200
      \<and> (of_int (image_height img) :: rat) = (12 / 10) * of_int (image_width img)"
  proof (intro allI impI)
    fix env args img
    assume "render_labeled_image env args = Inr img"
    then have "image_width img = 1000 \<and> image_height img = 1200"
      by (rule render_image_1000_by_1200)
    then show "image_width img = 1000 \<and> image_height img = 1200
      \<and> (of_int (image_height img) :: rat) = (12 / 10) * of_int (image_width img)"
      by simp
  qed
  have factors: "\<bar>qr_height_double wide / 1200 - qr_width_double wide / 1000\<bar>
      \<le> (qr_width_double wide / 1000) / 2 ^ 53"
    using assms by (rule scale_factors)
  have cells: "set (cell_sizes (snd (generate_pdf drawable qr_files wide)))
      \<subseteq> {(qr_width wide, qr_height wide)}"
    by (rule cells_of_generate_pdf)
  have height_error: "\<bar>qr_height_double wide - qr_height wide\<bar> \<le> qr_height wide / 2 ^ 53"
    using assms by (rule qr_height_double_error)
  from width_error have width_error':
    "\<bar>qr_width_double wide - (LETTER_WIDTH - 2 * 72) / of_nat wide\<bar>
      \<le> ((LETTER_WIDTH - 2 * 72) / of_nat wide) / 2 ^ 53"
    unfolding quotient .
  from margin_def width width_error' height product exact image factors cells width_error
    height_error
  show ?thesis by blast
qed

text \<open>
  C9 as stated fails: with one column the cell is 468 points wide and the float product
  \<open>468 * 1.2\<close> is greater than 1.2 times 468; with seven columns the cell width is greater
  than a seventh of the usable width, the cell height is less than 1.2 times the cell
  width, and the scale factor of the height is less than that of the width.
\<close>

theorem cell_height_not_exactly_1_2_width:
  "qr_width_double 1 = 468
   \<and> qr_height_double 1 = 4939885841272013 / 8796093022208
   \<and> (12 / 10) * qr_width_double 1 < qr_height_double 1
   \<and> usable_width / 7 < qr_width_double 7
   \<and> qr_height_double 7 < (12 / 10) * qr_width_double 7
   \<and> qr_height_double 7 / 1200 < qr_width_double 7 / 1000"
  unfolding qr_width_double_values qr_height_double_values
  by (simp add: usable_width_def LETTER_WIDTH_def margin_def)

theorem pdf_cell_sizing_witness:
  "qr_width_double 7 = 2352326591081911 / 35184372088832
   \<and> qr_height_double 7 = 2822791909298293 / 35184372088832
   \<and> \<bar>qr_height_double 7 - (12 / 10) * qr_width_double 7\<bar>
       \<le> (12 / 10) * qr_width_double 7 / 2 ^ 53
   \<and> map_sum id (\<lambda>img. (image_width img, image_height img))
        (render_labeled_image qrcode_env (0, CStr ''alpha'', 1000, 1000, 1200, ''/tmp/qr'', False))
       = Inr (1000, 1200)
   \<and> cell_sizes (snd (generate_pdf (\<lambda>f. True) [''a.png'', ''b.png''] 7))
       = [(qr_width 7, qr_height 7), (qr_width 7, qr_height 7)]"
proof -
  have columns: "1 \<le> (7 :: nat)" "(7 :: nat) \<le> 10"
    by simp_all
  note inst = pdf_cell_sizing [OF columns, of "\<lambda>f. True" "[''a.png'', ''b.png'']"]
  from inst have product: "\<bar>qr_height_double 7 - (12 / 10) * qr_width_double 7\<bar>
       \<le> (12 / 10) * qr_width_double 7 / 2 ^ 53"
    by (elim conjE)
  from inst have "\<forall>env args img. render_labeled_image env args = Inr img \<longrightarrow>
      image_width img = 1000 \<and> image_height img = 1200
      \<and> (of_int (image_height img) :: rat) = (12 / 10) * of_int (image_width img)"
    by (elim conjE)
  then have image: "\<And>env args img. render_labeled_image env args = Inr img \<Longrightarrow>
      image_width img = 1000 \<and> image_height img = 1200"
    by blast
  obtain img where img: "render_labeled_image qrcode_env
      (0, CStr ''alpha'', 1000, 1000, 1200, ''/tmp/qr'', False) = Inr img"
    by (simp add: render_short_text)
  have rendered: "map_sum id (\<lambda>img. (image_width img, image_height img))
        (render_labeled_image qrcode_env (0, CStr ''alpha'', 1000, 1000, 1200, ''/tmp/qr'', False))
       = Inr (1000, 1200)"
    using image [OF img] by (simp add: img)
  have cells: "cell_sizes (snd (generate_pdf (\<lambda>f. True) [''a.png'', ''b.png''] 7))
       = [(qr_width 7, qr_height 7), (qr_width 7, qr_height 7)]"
    by (simp add: generate_pdf_def pdf_start_def pdf_step_def Let_def)
  from product rendered cells qr_width_double_values(7) qr_height_double_values(7)
  show ?thesis by simp
qed

section \<open>Proofs: ingestion and exit status\<close>

text \<open>
  What the scan does: it keeps the rows of the column whose value is true for Python, in
  sheet order, each with its offset from the start row. The row numbers so collected are
  strictly ascending, hence distinct, which is what the join after the fan-out relies on.
\<close>

lemma valid_rows_loop_filter:
  "valid_rows_loop ws selected_column start rows acc
   = acc @ map (\<lambda>row. (row - start, cell ws row selected_column))
             (filter (\<lambda>row. truthy (cell ws row selected_column)) rows)"
  by (induction rows arbitrary: acc) (simp_all add: Let_def)

lemma offsets_ascending:
  fixes start :: nat
  shows "sorted_wrt (<) rows \<Longrightarrow> \<forall>row \<in> set rows. start \<le> row \<Longrightarrow>
         sorted_wrt (<) (map (\<lambda>row. row - start) rows)"
proof (induction rows)
  case Nil
  then show ?case by simp
next
  case (Cons row rows)
  then have "\<forall>later \<in> set rows. row - start < later - start"
    by (simp add: diff_less_mono)
  then show ?case using Cons by simp
qed

lemma valid_rows_ascending:
  assumes "collect_valid_rows ws selected_column start = Inr valid_rows"
  shows "sorted_wrt (<) (map fst valid_rows) \<and> distinct (map fst valid_rows)
    \<and> (\<forall>(row_num, cell_value) \<in> set valid_rows.
          truthy cell_value \<and> cell_value = cell ws (start + row_num) selected_column
          \<and> start + row_num \<le> max_row ws)"
proof -
  let ?rows = "filter (\<lambda>row. truthy (cell ws row selected_column)) [start..<max_row ws + 1]"
  have v: "valid_rows = map (\<lambda>row. (row - start, cell ws row selected_column)) ?rows"
    using assms by (simp add: collect_valid_rows_def valid_rows_loop_filter Let_def split: if_splits)
  have "sorted_wrt (<) ?rows"
    by (intro sorted_wrt_filter sorted_wrt_upt)
  moreover have "\<forall>row \<in> set ?rows. start \<le> row" by auto
  ultimately have "sorted_wrt (<) (map (\<lambda>row. row - start) ?rows)"
    by (rule offsets_ascending)
  then have s: "sorted_wrt (<) (map fst valid_rows)"
    by (simp only: v map_map o_def fst_conv)
  then have d: "distinct (map fst valid_rows)"
    by (simp add: strict_sorted_iff)
  have "\<forall>(row_num, cell_value) \<in> set valid_rows.
          truthy cell_value \<and> cell_value = cell ws (start + row_num) selected_column
          \<and> start + row_num \<le> max_row ws"
    by (auto simp: v)
  with s d show ?thesis by simp
qed

text \<open>
  C6 at a failing input. A cell holding the number 0 is not empty, yet \<open>if cell_value:\<close>
  is false for it: in a column \<open>A-1, 0, A-3\<close> without header the scan yields rows 0
  and 2 only, and for a column holding just 0 the script reports that no data was found
  and calls \<open>exit()\<close>.
\<close>

theorem zero_cell_not_collected:
  "collect_valid_rows
     \<lparr>max_row = 3, max_column = 1,
      cell = (\<lambda>row column. if row = 1 then CStr ''A-1'' else if row = 2 then CInt 0
                            else CStr ''A-3'')\<rparr> 1 (start_row False)
   = Inr [(0, CStr ''A-1''), (2, CStr ''A-3'')]
   \<and> collect_valid_rows
     \<lparr>max_row = 1, max_column = 1, cell = (\<lambda>row column. CInt 0)\<rparr> 1 (start_row False)
   = Inl (SystemExit None)"
proof -
  have "[1..<4] = [1, 2, 3]" and "[1..<2] = [1]"
    by (simp_all add: upt_rec)
  then show ?thesis
    by (simp add: collect_valid_rows_def start_row_def Let_def)
qed

text \<open>
  The exit status. A file selection that fails ends the process with status 0, and so
  does an exception of the generation stage, which the block inside the temporary
  directory prints and drops; an exception that reaches the outermost handler gives
  status 1, a cancellation status 0.
\<close>

lemma preflight_exit:
  "select_file args w = Inl (SystemExit None) \<Longrightarrow> exit_status args w = 0"
  by (simp add: exit_status_def script_body_def top_level_def exit_code_def)

lemma swallowed_generation_error:
  "script_body args w = tempdir_block (Some (Raised e)) \<Longrightarrow> exit_status args w = 0"
  by (simp add: exit_status_def tempdir_block_def top_level_def)

lemma uncaught_exception_exit:
  "script_body args w = Some (Raised e) \<Longrightarrow> exit_status args w = 1"
  by (simp add: exit_status_def top_level_def exit_code_def)

lemma cancellation_exit:
  "script_body args w = Some KeyboardInterrupt \<or> script_body args w = Some signal_handler
   \<Longrightarrow> exit_status args w = 0"
  by (auto simp: exit_status_def top_level_def exit_code_def signal_handler_def)

text \<open>
  C7 at a failing input. With \<open>-i missing.xlsx\<close> and no such file the script prints
  \<open>Error: Invalid Excel file\<close> and calls \<open>exit()\<close> without a code: \<open>SystemExit(None)\<close>
  leaves the outermost \<open>try\<close>, and the exit status is 0.
\<close>

theorem invalid_input_file_exits_zero:
  "script_body
     \<lparr>arg_input = Some ''missing.xlsx'', arg_column = None, arg_header = False,
      arg_wide = None, arg_type = None, arg_verbose = False\<rparr>
     \<lparr>path_exists = (\<lambda>path. False), listdir = [],
      load_workbook = (\<lambda>path. Inl (Exception ''no such file'')),
      file_answers = [], header_answers = [], column_answers = [],
      width_answers = [], format_answers = [], clear_output_dir = None,
      generation = (\<lambda>valid_rows wide output_type. None)\<rparr>
   = Some (SystemExit None)
   \<and> exit_status
     \<lparr>arg_input = Some ''missing.xlsx'', arg_column = None, arg_header = False,
      arg_wide = None, arg_type = None, arg_verbose = False\<rparr>
     \<lparr>path_exists = (\<lambda>path. False), listdir = [],
      load_workbook = (\<lambda>path. Inl (Exception ''no such file'')),
      file_answers = [], header_answers = [], column_answers = [],
      width_answers = [], format_answers = [], clear_output_dir = None,
      generation = (\<lambda>valid_rows wide output_type. None)\<rparr>
   = 0"
  by (simp add: exit_status_def script_body_def select_file_def top_level_def exit_code_def)

end
